theory Spec2Isabelle
  imports Complex_Main
begin

unbundle bit_operations_syntax

section \<open>Python values used by the program\<close>

text \<open>
  Exceptions of the source are values. \<open>ValueErrorSpec\<close> is the class declared in
  \<^verbatim>\<open>core/value_object.py\<close>; the others are the built-in exceptions that the
  operations used by the source can raise (\<open>OSError\<close> by the launcher).
\<close>

datatype error = ValueErrorSpec | ValueError | ZeroDivisionError | IndexError | OSError

text \<open>
  A Python \<^verbatim>\<open>float\<close>. A finite value is modelled by the rational it denotes:
  rounding to 53 bits, overflow to infinity and underflow to zero are not modelled. The
  two infinities and NaN are values of their own, because the source compares floats
  and every comparison with NaN is false.
\<close>

datatype pyfloat = Fin rat | PInf | NInf | NaN

fun fneg :: "pyfloat \<Rightarrow> pyfloat" where
  "fneg (Fin a) = Fin (- a)"
| "fneg PInf = NInf"
| "fneg NInf = PInf"
| "fneg NaN = NaN"

fun fadd :: "pyfloat \<Rightarrow> pyfloat \<Rightarrow> pyfloat" where
  "fadd NaN y = NaN"
| "fadd x NaN = NaN"
| "fadd (Fin a) (Fin b) = Fin (a + b)"
| "fadd (Fin a) y = y"
| "fadd x (Fin b) = x"
| "fadd PInf PInf = PInf"
| "fadd NInf NInf = NInf"
| "fadd PInf NInf = NaN"
| "fadd NInf PInf = NaN"

definition fsub :: "pyfloat \<Rightarrow> pyfloat \<Rightarrow> pyfloat" where
  "fsub x y = fadd x (fneg y)"

fun fsign :: "pyfloat \<Rightarrow> int" where
  "fsign (Fin a) = (if a < 0 then - 1 else if a = 0 then 0 else 1)"
| "fsign PInf = 1"
| "fsign NInf = - 1"
| "fsign NaN = 0"

fun fmul :: "pyfloat \<Rightarrow> pyfloat \<Rightarrow> pyfloat" where
  "fmul NaN y = NaN"
| "fmul x NaN = NaN"
| "fmul (Fin a) (Fin b) = Fin (a * b)"
| "fmul x y =
     (if fsign x * fsign y = 0 then NaN else if fsign x * fsign y < 0 then NInf else PInf)"

text \<open>Float division \<^verbatim>\<open>x / y\<close>: a zero divisor raises.\<close>

fun fdiv :: "pyfloat \<Rightarrow> pyfloat \<Rightarrow> error + pyfloat" where
  "fdiv x (Fin b) =
     (if b = 0 then Inl ZeroDivisionError
      else case x of
        Fin a \<Rightarrow> Inr (Fin (a / b))
      | NaN \<Rightarrow> Inr NaN
      | _ \<Rightarrow> Inr (if fsign x * fsign (Fin b) < 0 then NInf else PInf))"
| "fdiv x NaN = Inr NaN"
| "fdiv (Fin a) y = Inr (Fin 0)"
| "fdiv x y = Inr NaN"

text \<open>The comparisons \<^verbatim>\<open><\<close> and \<^verbatim>\<open><=\<close>; \<^verbatim>\<open>x > y\<close> is \<open>flt y x\<close>, \<^verbatim>\<open>x >= y\<close> is \<open>fle y x\<close>.\<close>

fun flt :: "pyfloat \<Rightarrow> pyfloat \<Rightarrow> bool" where
  "flt NaN y = False"
| "flt x NaN = False"
| "flt (Fin a) (Fin b) = (a < b)"
| "flt x PInf = (x \<noteq> PInf)"
| "flt NInf y = (y \<noteq> NInf)"
| "flt x y = False"

fun fle :: "pyfloat \<Rightarrow> pyfloat \<Rightarrow> bool" where
  "fle NaN y = False"
| "fle x NaN = False"
| "fle (Fin a) (Fin b) = (a \<le> b)"
| "fle x PInf = True"
| "fle NInf y = True"
| "fle x y = False"

definition fgt :: "pyfloat \<Rightarrow> pyfloat \<Rightarrow> bool" where
  "fgt x y = flt y x"

definition fge :: "pyfloat \<Rightarrow> pyfloat \<Rightarrow> bool" where
  "fge x y = fle y x"

text \<open>Truth value of a float in a condition: only zero is false.\<close>

definition float_truthy :: "pyfloat \<Rightarrow> bool" where
  "float_truthy x = (x \<noteq> Fin 0)"

subsection \<open>Strings\<close>

text \<open>
  A \<^verbatim>\<open>str\<close> is a list of characters; a character of the model is a code point below
  256. \<open>is_space\<close> is \<^verbatim>\<open>str.isspace\<close> on these code points, \<open>py_lower\<close> is
  \<^verbatim>\<open>str.lower\<close>, \<open>py_strip\<close> is \<^verbatim>\<open>str.strip()\<close>.
\<close>

definition is_space :: "char \<Rightarrow> bool" where
  "is_space c = (let n = (of_char c :: nat) in
     (9 \<le> n \<and> n \<le> 13) \<or> (28 \<le> n \<and> n \<le> 32) \<or> n = 133 \<or> n = 160)"

definition lower_char :: "char \<Rightarrow> char" where
  "lower_char c = (let n = (of_char c :: nat) in
     if (65 \<le> n \<and> n \<le> 90) \<or> (192 \<le> n \<and> n \<le> 222 \<and> n \<noteq> 215)
     then char_of (n + 32) else c)"

definition py_lower :: "string \<Rightarrow> string" where
  "py_lower s = map lower_char s"

definition py_strip :: "string \<Rightarrow> string" where
  "py_strip s = rev (dropWhile is_space (rev (dropWhile is_space s)))"

definition endswith :: "string \<Rightarrow> string \<Rightarrow> bool" where
  "endswith s suf = (length suf \<le> length s \<and> drop (length s - length suf) s = suf)"

text \<open>The slice \<^verbatim>\<open>s[:-k]\<close> for \<open>k > 0\<close>.\<close>

definition slice_to_neg :: "nat \<Rightarrow> string \<Rightarrow> string" where
  "slice_to_neg k s = take (length s - k) s"

subsection \<open>The built-in \<^verbatim>\<open>float(str)\<close>\<close>

text \<open>
  The grammar of the language reference: surrounding whitespace is dropped, then an
  optional sign, then \<^verbatim>\<open>inf\<close>, \<^verbatim>\<open>infinity\<close> or \<^verbatim>\<open>nan\<close> in any case, or a decimal
  number with an optional fraction and exponent whose digit groups may be separated by
  single underscores. \<open>None\<close> is the \<^verbatim>\<open>ValueError\<close> of the built-in.
\<close>

definition is_digit :: "char \<Rightarrow> bool" where
  "is_digit c = (let n = (of_char c :: nat) in 48 \<le> n \<and> n \<le> 57)"

definition digit_val :: "char \<Rightarrow> nat" where
  "digit_val c = of_char c - 48"

fun digitpart :: "string \<Rightarrow> bool" where
  "digitpart [] = False"
| "digitpart [c] = is_digit c"
| "digitpart (c # d # r) =
     (is_digit c \<and> (if d = CHR ''_'' then digitpart r else digitpart (d # r)))"

definition digits_of :: "string \<Rightarrow> nat list" where
  "digits_of s = map digit_val (filter is_digit s)"

definition nat_of_digits :: "nat list \<Rightarrow> nat" where
  "nat_of_digits ds = foldl (\<lambda>acc d. 10 * acc + d) 0 ds"

text \<open>A digit part that may be empty (the side of the point that the grammar lets out).\<close>

definition opt_digitpart :: "string \<Rightarrow> bool" where
  "opt_digitpart s = (s = [] \<or> digitpart s)"

definition mantissa :: "string \<Rightarrow> rat option" where
  "mantissa s =
     (let ip = takeWhile (\<lambda>c. c \<noteq> CHR ''.'') s;
          rest = dropWhile (\<lambda>c. c \<noteq> CHR ''.'') s
      in if rest = [] then
           (if digitpart ip then Some (of_nat (nat_of_digits (digits_of ip))) else None)
         else
           (let fp = tl rest in
            if opt_digitpart ip \<and> opt_digitpart fp \<and> (ip \<noteq> [] \<or> fp \<noteq> []) then
              Some (of_nat (nat_of_digits (digits_of ip))
                    + of_nat (nat_of_digits (digits_of fp)) / 10 ^ length (digits_of fp))
            else None))"

definition exponent :: "string \<Rightarrow> int option" where
  "exponent s =
     (case s of
        [] \<Rightarrow> None
      | c # r \<Rightarrow>
          if c = CHR ''-'' then (if digitpart r then Some (- int (nat_of_digits (digits_of r))) else None)
          else if c = CHR ''+'' then (if digitpart r then Some (int (nat_of_digits (digits_of r))) else None)
          else (if digitpart s then Some (int (nat_of_digits (digits_of s))) else None))"

definition scale10 :: "rat \<Rightarrow> int \<Rightarrow> rat" where
  "scale10 x e = (if 0 \<le> e then x * 10 ^ nat e else x / 10 ^ nat (- e))"

definition is_e :: "char \<Rightarrow> bool" where
  "is_e c = (c = CHR ''e'' \<or> c = CHR ''E'')"

definition floatnumber :: "string \<Rightarrow> rat option" where
  "floatnumber s =
     (let m = takeWhile (\<lambda>c. \<not> is_e c) s;
          rest = dropWhile (\<lambda>c. \<not> is_e c) s
      in if rest = [] then mantissa m
         else (case (mantissa m, exponent (tl rest)) of
                 (Some x, Some e) \<Rightarrow> Some (scale10 x e)
               | _ \<Rightarrow> None))"

definition absfloatvalue :: "string \<Rightarrow> pyfloat option" where
  "absfloatvalue s =
     (if py_lower s = ''inf'' \<or> py_lower s = ''infinity'' then Some PInf
      else if py_lower s = ''nan'' then Some NaN
      else map_option Fin (floatnumber s))"

definition py_float :: "string \<Rightarrow> pyfloat option" where
  "py_float s =
     (case py_strip s of
        [] \<Rightarrow> None
      | c # r \<Rightarrow>
          if c = CHR ''-'' then map_option fneg (absfloatvalue r)
          else if c = CHR ''+'' then absfloatvalue r
          else absfloatvalue (c # r))"

section \<open>Value objects (\<^verbatim>\<open>core/value_object.py\<close>)\<close>

text \<open>
  \<^verbatim>\<open>_parse_time_spec_to_seconds\<close>. The \<^verbatim>\<open>ValueError\<close> of \<^verbatim>\<open>float\<close> is caught and
  becomes \<open>ValueErrorSpec\<close>; nothing else is caught.
\<close>

definition float_or_spec_error :: "string \<Rightarrow> error + pyfloat" where
  "float_or_spec_error s = (case py_float s of None \<Rightarrow> Inl ValueErrorSpec | Some x \<Rightarrow> Inr x)"

definition parse_time_spec_to_seconds :: "string option \<Rightarrow> error + pyfloat" where
  "parse_time_spec_to_seconds spec =
     (case spec of
        None \<Rightarrow> Inl ValueErrorSpec
      | Some sp \<Rightarrow>
          (let s = py_lower (py_strip sp) in
           if s = [] then Inl ValueErrorSpec
           else if endswith s ''ms'' then
             (case float_or_spec_error (slice_to_neg 2 s) of
                Inl e \<Rightarrow> Inl e
              | Inr x \<Rightarrow> fdiv x (Fin 1000))
           else if endswith s ''s'' then float_or_spec_error (slice_to_neg 1 s)
           else if endswith s ''m'' then
             (case float_or_spec_error (slice_to_neg 1 s) of
                Inl e \<Rightarrow> Inl e
              | Inr x \<Rightarrow> Inr (fmul x (Fin 60)))
           else if endswith s ''h'' then
             (case float_or_spec_error (slice_to_neg 1 s) of
                Inl e \<Rightarrow> Inl e
              | Inr x \<Rightarrow> Inr (fmul x (Fin 3600)))
           else float_or_spec_error s))"

datatype Interval = Interval (interval_seconds: pyfloat)

datatype Duration = Duration (duration_seconds: "pyfloat option")

datatype Amplitude = Amplitude (pixels: int)

definition Interval_from_spec :: "string option \<Rightarrow> error + Interval" where
  "Interval_from_spec spec =
     (case parse_time_spec_to_seconds spec of
        Inl e \<Rightarrow> Inl e
      | Inr secs \<Rightarrow> if fle secs (Fin 0) then Inl ValueErrorSpec else Inr (Interval secs))"

definition Duration_none :: Duration where
  "Duration_none = Duration None"

definition Duration_from_spec :: "string option \<Rightarrow> error + Duration" where
  "Duration_from_spec spec =
     (case spec of
        None \<Rightarrow> Inr Duration_none
      | Some sp \<Rightarrow>
          (case parse_time_spec_to_seconds (Some sp) of
             Inl e \<Rightarrow> Inl e
           | Inr secs \<Rightarrow>
               if fle secs (Fin 0) then Inl ValueErrorSpec else Inr (Duration (Some secs))))"

definition is_infinite :: "Duration \<Rightarrow> bool" where
  "is_infinite d = (duration_seconds d = None)"

definition Amplitude_from_int :: "int \<Rightarrow> error + Amplitude" where
  "Amplitude_from_int px = (if px \<le> 0 then Inl ValueErrorSpec else Inr (Amplitude px))"

section \<open>Movement patterns (\<^verbatim>\<open>core/patterns.py\<close>)\<close>

text \<open>
  Python integers are unbounded: \<open>int\<close>. The operator \<^verbatim>\<open>%\<close> on integers rounds towards
  minus infinity like \<open>mod\<close> and raises on a zero divisor; \<^verbatim>\<open>&\<close> on integers is \<open>AND\<close>
  (two's complement on both sides). Indexing a list raises out of range and counts
  negative indices from the end.
\<close>

definition py_mod :: "int \<Rightarrow> int \<Rightarrow> error + int" where
  "py_mod a b = (if b = 0 then Inl ZeroDivisionError else Inr (a mod b))"

definition py_getitem :: "'a list \<Rightarrow> int \<Rightarrow> error + 'a" where
  "py_getitem xs i =
     (if 0 \<le> i \<and> i < int (length xs) then Inr (xs ! nat i)
      else if - int (length xs) \<le> i \<and> i < 0 then Inr (xs ! nat (int (length xs) + i))
      else Inl IndexError)"

text \<open>\<^verbatim>\<open>SquarePattern.next_delta\<close>: no operation of its body can raise.\<close>

definition SquarePattern_next_delta :: "int \<Rightarrow> int \<Rightarrow> int \<times> int" where
  "SquarePattern_next_delta step amplitude0 =
     (let amplitude = (if amplitude0 < 1 then 1 else amplitude0);
          phase = step mod 4
      in if phase = 0 then (amplitude, 0)
         else if phase = 1 then (0, amplitude)
         else if phase = 2 then (- amplitude, 0)
         else (0, - amplitude))"

text \<open>
  \<^verbatim>\<open>RandomPattern\<close> is a frozen dataclass with two fields, checked by
  \<^verbatim>\<open>__post_init__\<close>.
\<close>

record RandomPattern =
  max_drift :: int
  compensate_prob :: pyfloat

definition RandomPattern_default :: RandomPattern where
  "RandomPattern_default = \<lparr>max_drift = 5, compensate_prob = Fin (3 / 5)\<rparr>"

definition RandomPattern_post_init :: "RandomPattern \<Rightarrow> error + RandomPattern" where
  "RandomPattern_post_init p =
     (if max_drift p < 1 then Inl ValueError
      else if \<not> (fle (Fin 0) (compensate_prob p) \<and> fle (compensate_prob p) (Fin 1))
      then Inl ValueError
      else Inr p)"

definition dirs :: "(int \<times> int) list" where
  "dirs = [(1, 0), (- 1, 0), (0, 1), (0, - 1), (1, 1), (1, - 1), (- 1, 1), (- 1, - 1)]"

definition RandomPattern_next_delta :: "RandomPattern \<Rightarrow> int \<Rightarrow> int \<Rightarrow> error + int \<times> int" where
  "RandomPattern_next_delta self step amplitude0 =
     (let amplitude = (if amplitude0 < 1 then 1 else amplitude0) in
      case py_mod step amplitude of
        Inl e \<Rightarrow> Inl e
      | Inr r \<Rightarrow>
          (let mag = 1 + r;
               idx = (step * 1103515245 + 12345) AND 0x7FFFFFFF
           in case py_getitem dirs (idx mod int (length dirs)) of
                Inl e \<Rightarrow> Inl e
              | Inr choice \<Rightarrow>
                  (let dx = fst choice * mag; dy = snd choice * mag in
                   if step mod 17 = 0 then
                     (let pseudo_p = Fin (of_int ((step * 2654435761) AND 0xFFFFFFFF) / 2 ^ 32)
                      in if flt pseudo_p (compensate_prob self) then Inr (- dx, - dy)
                         else Inr (dx, dy))
                   else Inr (dx, dy))))"

text \<open>The strategy object held by a configuration, and the dispatch of its method.\<close>

datatype PatternStrategy = SquarePattern | RandomPattern RandomPattern

fun next_delta :: "PatternStrategy \<Rightarrow> int \<Rightarrow> int \<Rightarrow> error + int \<times> int" where
  "next_delta SquarePattern step amplitude = Inr (SquarePattern_next_delta step amplitude)"
| "next_delta (RandomPattern p) step amplitude = RandomPattern_next_delta p step amplitude"

text \<open>
  The pointer moves relatively, so its displacement after some steps is the sum of the
  deltas applied. \<open>drift n s A\<close> is the displacement after the \<open>n\<close> consecutive steps
  \<open>s, s + 1, \<dots>\<close> of the square pattern.
\<close>

definition add_delta :: "int \<times> int \<Rightarrow> int \<times> int \<Rightarrow> int \<times> int" where
  "add_delta d e = (fst d + fst e, snd d + snd e)"

fun drift :: "nat \<Rightarrow> int \<Rightarrow> int \<Rightarrow> int \<times> int" where
  "drift 0 s A = (0, 0)"
| "drift (Suc n) s A = add_delta (drift n s A) (SquarePattern_next_delta (s + int n) A)"

text \<open>
  The corner of the square on which the pointer stands before step \<open>k\<close>, relative to
  the corner of phase 0. Used to bound the drift.
\<close>

definition square_pos :: "int \<Rightarrow> int \<Rightarrow> int \<times> int" where
  "square_pos k A = (if k mod 4 = 0 then (0, 0) else if k mod 4 = 1 then (A, 0)
                     else if k mod 4 = 2 then (A, A) else (0, A))"

section \<open>The jiggler service (\<^verbatim>\<open>mouse_jiggler/core/service.py\<close>)\<close>

record JigglerConfig =
  interval :: Interval
  amplitude :: Amplitude
  duration :: Duration
  pattern :: PatternStrategy

subsection \<open>Ports, as events on a trace\<close>

text \<open>
  The service talks to the world only through its ports. Every call of a port is an
  event; the state repository (\<^verbatim>\<open>adapters/fs_repo.py\<close>) is the pair of the PID record,
  as \<^verbatim>\<open>read_pid\<close> returns it, and the presence of the stop marker. The newest event is
  the head of \<open>trace\<close>.
\<close>

datatype message =
    MsgAlreadyRunning int
  | MsgArgv "string list"
  | MsgStarted int
  | MsgUnconfirmed
  | MsgNotRunning
  | MsgStopped
  | MsgStillAlive
  | MsgRunning int string

datatype event =
    WritePid int
  | ClearPid
  | SetStop
  | ClearStop
  | ReadPid "int option"
  | HasStop bool
  | IsAlive int bool
  | Now pyfloat
  | Sleep pyfloat
  | Move int int bool
  | SpawnRun "string list"
  | Print message
  | InstallHandlers
  | Signal
  | Inhibit
  | Release

record store =
  pid_file :: "int option"
  stop_file :: bool
  trace :: "event list"

definition emit :: "event \<Rightarrow> 'a store_scheme \<Rightarrow> 'a store_scheme" where
  "emit e s = s\<lparr>trace := e # trace s\<rparr>"

definition write_pid :: "int \<Rightarrow> 'a store_scheme \<Rightarrow> 'a store_scheme" where
  "write_pid p s = emit (WritePid p) (s\<lparr>pid_file := Some p\<rparr>)"

definition clear_pid :: "'a store_scheme \<Rightarrow> 'a store_scheme" where
  "clear_pid s = emit ClearPid (s\<lparr>pid_file := None\<rparr>)"

definition set_stop :: "'a store_scheme \<Rightarrow> 'a store_scheme" where
  "set_stop s = emit SetStop (s\<lparr>stop_file := True\<rparr>)"

definition clear_stop :: "'a store_scheme \<Rightarrow> 'a store_scheme" where
  "clear_stop s = emit ClearStop (s\<lparr>stop_file := False\<rparr>)"

definition is_mutation :: "event \<Rightarrow> bool" where
  "is_mutation e = (case e of WritePid p \<Rightarrow> True | ClearPid \<Rightarrow> True | SetStop \<Rightarrow> True
                    | ClearStop \<Rightarrow> True | _ \<Rightarrow> False)"

text \<open>The writes to the repository on a trace.\<close>

definition mutations :: "event list \<Rightarrow> event list" where
  "mutations l = filter is_mutation l"

definition is_move :: "event \<Rightarrow> bool" where
  "is_move e = (case e of Move dx dy r \<Rightarrow> True | _ \<Rightarrow> False)"

definition is_sleep :: "event \<Rightarrow> bool" where
  "is_sleep e = (case e of Sleep q \<Rightarrow> True | _ \<Rightarrow> False)"

definition moves :: "event list \<Rightarrow> nat" where
  "moves l = length (filter is_move l)"

definition sleeps :: "event list \<Rightarrow> nat" where
  "sleeps l = length (filter is_sleep l)"

text \<open>The condition \<^verbatim>\<open>if pid\<close> on an optional integer: \<^verbatim>\<open>None\<close> and \<^verbatim>\<open>0\<close> are false.\<close>

definition pid_truthy :: "int option \<Rightarrow> bool" where
  "pid_truthy p = (case p of None \<Rightarrow> False | Some n \<Rightarrow> n \<noteq> 0)"

subsection \<open>The foreground commands: \<^verbatim>\<open>start\<close>, \<^verbatim>\<open>stop\<close>, \<^verbatim>\<open>status\<close>\<close>

text \<open>
  What a foreground command cannot control is its environment: the answers of the
  process probe, what other processes (the worker) do to the repository while the command
  sleeps, whether the launcher fails, and how the interpreter was started and prints
  numbers. The probe and the other processes are indexed by the number of sleeps the
  command has made; between two sleeps the repository changes only by the command's
  own calls.
\<close>

record fenv =
  is_alive :: "nat \<Rightarrow> int \<Rightarrow> bool"
  pid_during_sleep :: "nat \<Rightarrow> int option \<Rightarrow> int option"
  stop_during_sleep :: "nat \<Rightarrow> bool \<Rightarrow> bool"
  spawn_error :: "error option"
  sys_executable :: string
  sys_frozen :: bool
  str_float :: "pyfloat \<Rightarrow> string"
  str_int :: "int \<Rightarrow> string"
  state_dir :: string

record fstate = store +
  slept :: nat

datatype outcome = Returned | SysExit int | Raised error

definition clock_sleep :: "fenv \<Rightarrow> pyfloat \<Rightarrow> fstate \<Rightarrow> fstate" where
  "clock_sleep env q s =
     emit (Sleep q)
       (s\<lparr>pid_file := pid_during_sleep env (slept s) (pid_file s),
          stop_file := stop_during_sleep env (slept s) (stop_file s),
          slept := Suc (slept s)\<rparr>)"

definition read_pid :: "fstate \<Rightarrow> fstate" where
  "read_pid s = emit (ReadPid (pid_file s)) s"

text \<open>\<^verbatim>\<open>self.probe.is_alive(pid)\<close>, for a \<open>pid\<close> that is not \<^verbatim>\<open>None\<close>.\<close>

definition probe :: "fenv \<Rightarrow> int \<Rightarrow> fstate \<Rightarrow> fstate" where
  "probe env p s = emit (IsAlive p (is_alive env (slept s) p)) s"

text \<open>
  The condition \<^verbatim>\<open>pid and self.probe.is_alive(pid)\<close>: the probe is asked only for a
  \<open>pid\<close> that is true. Where the condition holds, \<open>pid\<close> is \<open>Some p\<close>, and the
  commands below print \<open>the pid\<close> only there.
\<close>

definition pid_and_alive :: "fenv \<Rightarrow> int option \<Rightarrow> fstate \<Rightarrow> bool \<times> fstate" where
  "pid_and_alive env pid s =
     (case pid of
        None \<Rightarrow> (False, s)
      | Some p \<Rightarrow>
          if pid_truthy (Some p) then (is_alive env (slept s) p, probe env p s)
          else (False, s))"

definition status :: "fenv \<Rightarrow> fstate \<Rightarrow> outcome \<times> fstate" where
  "status env s0 =
     (let s1 = read_pid s0;
          pid = pid_file s0;
          (running, s2) = pid_and_alive env pid s1
      in if running then (Returned, emit (Print (MsgRunning (the pid) (state_dir env))) s2)
         else (Returned, emit (Print MsgNotRunning) s2))"

text \<open>The loop \<^verbatim>\<open>for _ in range(50)\<close> of \<^verbatim>\<open>stop\<close>, by the rounds that are left.\<close>

fun stop_wait :: "nat \<Rightarrow> fenv \<Rightarrow> int \<Rightarrow> fstate \<Rightarrow> outcome \<times> fstate" where
  "stop_wait 0 env p s = (Returned, emit (Print MsgStillAlive) s)"
| "stop_wait (Suc n) env p s =
     (if \<not> is_alive env (slept s) p
      then (Returned, emit (Print MsgStopped) (clear_stop (clear_pid (probe env p s))))
      else stop_wait n env p (clock_sleep env (Fin (1 / 10)) (probe env p s)))"

definition stop :: "fenv \<Rightarrow> fstate \<Rightarrow> outcome \<times> fstate" where
  "stop env s0 =
     (let s1 = read_pid s0;
          pid = pid_file s0;
          (running, s2) = pid_and_alive env pid s1
      in if \<not> running then (Returned, emit (Print MsgNotRunning) (clear_stop (clear_pid s2)))
         else stop_wait 50 env (the pid) (set_stop s2))"

definition run_argv :: "fenv \<Rightarrow> JigglerConfig \<Rightarrow> string list" where
  "run_argv env cfg =
     (if sys_frozen env
      then [sys_executable env, ''run'',
            ''--interval'', str_float env (interval_seconds (interval cfg)) @ ''s'',
            ''--amplitude'', str_int env (pixels (amplitude cfg))]
      else [sys_executable env, ''-m'', ''mouse_jiggler.cli'', ''run'',
            ''--interval'', str_float env (interval_seconds (interval cfg)) @ ''s'',
            ''--amplitude'', str_int env (pixels (amplitude cfg))])
     @ (case duration_seconds (duration cfg) of
          None \<Rightarrow> []
        | Some d \<Rightarrow> [''--duration'', str_float env d @ ''s''])"

text \<open>The loop \<^verbatim>\<open>for _ in range(20)\<close> of \<^verbatim>\<open>start\<close>.\<close>

fun start_wait :: "nat \<Rightarrow> fenv \<Rightarrow> fstate \<Rightarrow> outcome \<times> fstate" where
  "start_wait 0 env s = (Returned, emit (Print MsgUnconfirmed) s)"
| "start_wait (Suc n) env s =
     (let s1 = clock_sleep env (Fin (1 / 10)) s;
          s2 = read_pid s1;
          pid = pid_file s1;
          (running, s3) = pid_and_alive env pid s2
      in if running then (Returned, emit (Print (MsgStarted (the pid))) s3)
         else start_wait n env s3)"

definition spawn_and_wait :: "fenv \<Rightarrow> JigglerConfig \<Rightarrow> fstate \<Rightarrow> outcome \<times> fstate" where
  "spawn_and_wait env cfg s =
     (let argv = run_argv env cfg;
          s1 = emit (Print (MsgArgv argv)) s
      in case spawn_error env of
           Some e \<Rightarrow> (Raised e, s1)
         | None \<Rightarrow> start_wait 20 env (emit (SpawnRun argv) s1))"

definition start :: "fenv \<Rightarrow> JigglerConfig \<Rightarrow> bool \<Rightarrow> fstate \<Rightarrow> outcome \<times> fstate" where
  "start env cfg force s0 =
     (let s1 = read_pid s0;
          pid = pid_file s0;
          (running, s2) = pid_and_alive env pid s1
      in if running then
           (if \<not> force then (SysExit 1, emit (Print (MsgAlreadyRunning (the pid))) s2)
            else spawn_and_wait env cfg (clear_pid s2))
         else spawn_and_wait env cfg s2)"

subsection \<open>The worker: \<^verbatim>\<open>run\<close>\<close>

text \<open>
  \<^verbatim>\<open>run\<close> is a loop that may go on for ever, interleaved with other processes and
  interrupted by signals, so it is modelled as a machine that makes one port call per
  step. A program counter names the next call:

  \<^item> \<open>AtWritePid\<close>, \<open>AtClearStop\<close>: lines 111 and 112;
  \<^item> \<open>AtInstall\<close>: lines 120 to 122, the handlers for SIGINT and SIGTERM;
  \<^item> \<open>AtDeadline\<close>: line 127; \<open>AtInhibit\<close>: lines 130 to 140;
  \<^item> \<open>AtOuterStop\<close>, \<open>AtOuterNow\<close>: lines 144 to 148; \<open>AtMove\<close>: lines 151 to 162;
  \<^item> \<open>AtInnerStop\<close>, \<open>AtInnerNow\<close>, \<open>AtSleep\<close>: the body of the inner loop, lines 164
    to 171;
  \<^item> \<open>AtPostStop\<close>, \<open>AtPostNow\<close>: lines 174 to 177;
  \<^item> \<open>AtRelease\<close>, \<open>AtFinClearPid\<close>, \<open>AtFinClearStop\<close>: the \<^verbatim>\<open>finally\<close> block, which
    ends in \<^verbatim>\<open>cleanup()\<close> and so in \<^verbatim>\<open>sys.exit(0)\<close>;
  \<^item> \<open>AtSigClearPid\<close>, \<open>AtSigClearStop\<close>: \<^verbatim>\<open>cleanup\<close> running as a signal handler;
  \<^item> \<open>Exited c\<close>: the process has left through \<^verbatim>\<open>sys.exit(c)\<close>; \<open>Died\<close>: a signal
    arrived while the handlers were not installed, and its default action ended the
    process.
\<close>

datatype pc =
    AtWritePid | AtClearStop | AtInstall | AtDeadline | AtInhibit
  | AtOuterStop | AtOuterNow | AtMove
  | AtInnerStop | AtInnerNow | AtSleep
  | AtPostStop | AtPostNow
  | AtRelease | AtFinClearPid | AtFinClearStop
  | AtSigClearPid | AtSigClearStop
  | Exited int | Died

text \<open>
  The environment of the worker, indexed by the number of steps made so far: whether
  another process (\<^verbatim>\<open>stop\<close>) has just created the stop marker, what the clock reads,
  whether \<^verbatim>\<open>mouse.move\<close> raises, whether SIGINT or SIGTERM is delivered. In the
  single-worker design of the service nobody else writes the PID record or removes the
  marker while the worker runs, and the calls of the repository themselves succeed.
\<close>

record wenv =
  getpid :: int
  os_nt :: bool
  inhibit_fails :: bool
  stop_request :: "nat \<Rightarrow> bool"
  clock_now :: "nat \<Rightarrow> pyfloat"
  move_raises :: "nat \<Rightarrow> bool"
  signal_at :: "nat \<Rightarrow> bool"

record wstate = store +
  pc :: pc
  handlers :: bool
  in_try :: bool
  inhibitor :: bool
  deadline :: "pyfloat option"
  step :: int
  remaining :: pyfloat
  tick :: nat

definition sleep_quantum :: pyfloat where
  "sleep_quantum = Fin (1 / 5)"

text \<open>The condition \<^verbatim>\<open>deadline and now >= deadline\<close>.\<close>

definition deadline_reached :: "pyfloat option \<Rightarrow> pyfloat \<Rightarrow> bool" where
  "deadline_reached dl now =
     (case dl of None \<Rightarrow> False | Some d \<Rightarrow> float_truthy d \<and> fge now d)"

text \<open>The test \<^verbatim>\<open>while remaining > 0\<close> of the inner loop.\<close>

definition inner_loop :: "pyfloat \<Rightarrow> pc" where
  "inner_loop r = (if fgt r (Fin 0) then AtInnerStop else AtPostStop)"

definition has_stop :: "wstate \<Rightarrow> wstate" where
  "has_stop s = emit (HasStop (stop_file s)) s"

definition exec :: "JigglerConfig \<Rightarrow> wenv \<Rightarrow> wstate \<Rightarrow> wstate" where
  "exec cfg env s =
     (case pc s of
        AtWritePid \<Rightarrow> (write_pid (getpid env) s)\<lparr>pc := AtClearStop\<rparr>
      | AtClearStop \<Rightarrow> (clear_stop s)\<lparr>pc := AtInstall\<rparr>
      | AtInstall \<Rightarrow> (emit InstallHandlers s)\<lparr>handlers := True, pc := AtDeadline\<rparr>
      | AtDeadline \<Rightarrow>
          (case duration_seconds (duration cfg) of
             None \<Rightarrow> s\<lparr>deadline := None, pc := AtInhibit\<rparr>
           | Some d \<Rightarrow>
               (emit (Now (clock_now env (tick s))) s)
                 \<lparr>deadline := Some (fadd (clock_now env (tick s)) d), pc := AtInhibit\<rparr>)
      | AtInhibit \<Rightarrow>
          (if os_nt env \<and> \<not> inhibit_fails env then (emit Inhibit s)\<lparr>inhibitor := True\<rparr> else s)
            \<lparr>step := 0, pc := AtOuterStop\<rparr>
      | AtOuterStop \<Rightarrow> (has_stop s)\<lparr>pc := if stop_file s then AtRelease else AtOuterNow\<rparr>
      | AtOuterNow \<Rightarrow>
          (emit (Now (clock_now env (tick s))) s)
            \<lparr>pc := if deadline_reached (deadline s) (clock_now env (tick s))
                   then AtRelease else AtMove\<rparr>
      | AtMove \<Rightarrow>
          (case next_delta (pattern cfg) (step s) (pixels (amplitude cfg)) of
             Inl e \<Rightarrow> s\<lparr>pc := AtRelease\<rparr>
           | Inr d \<Rightarrow>
               (emit (Move (fst d) (snd d) (move_raises env (tick s))) s)
                 \<lparr>step := step s + 1,
                  remaining := interval_seconds (interval cfg),
                  pc := inner_loop (interval_seconds (interval cfg))\<rparr>)
      | AtInnerStop \<Rightarrow> (has_stop s)\<lparr>pc := if stop_file s then AtPostStop else AtInnerNow\<rparr>
      | AtInnerNow \<Rightarrow>
          (emit (Now (clock_now env (tick s))) s)
            \<lparr>pc := if deadline_reached (deadline s) (clock_now env (tick s))
                   then AtPostStop else AtSleep\<rparr>
      | AtSleep \<Rightarrow>
          (let q = (if fgt (remaining s) sleep_quantum then sleep_quantum else remaining s)
           in (emit (Sleep q) s)
                \<lparr>remaining := fsub (remaining s) q,
                 pc := inner_loop (fsub (remaining s) q)\<rparr>)
      | AtPostStop \<Rightarrow> (has_stop s)\<lparr>pc := if stop_file s then AtRelease else AtPostNow\<rparr>
      | AtPostNow \<Rightarrow>
          (case deadline s of
             None \<Rightarrow> s\<lparr>pc := AtOuterStop\<rparr>
           | Some d \<Rightarrow>
               if \<not> float_truthy d then s\<lparr>pc := AtOuterStop\<rparr>
               else (emit (Now (clock_now env (tick s))) s)
                      \<lparr>pc := if fge (clock_now env (tick s)) d then AtRelease else AtOuterStop\<rparr>)
      | AtRelease \<Rightarrow> (if inhibitor s then emit Release s else s)\<lparr>pc := AtFinClearPid\<rparr>
      | AtFinClearPid \<Rightarrow> (clear_pid s)\<lparr>pc := AtFinClearStop\<rparr>
      | AtFinClearStop \<Rightarrow> (clear_stop s)\<lparr>pc := Exited 0\<rparr>
      | AtSigClearPid \<Rightarrow> (clear_pid s)\<lparr>pc := AtSigClearStop\<rparr>
      | AtSigClearStop \<Rightarrow> (clear_stop s)\<lparr>pc := if in_try s then AtRelease else Exited 0\<rparr>
      | Exited c \<Rightarrow> s
      | Died \<Rightarrow> s)"

definition final :: "pc \<Rightarrow> bool" where
  "final p = (case p of Exited c \<Rightarrow> True | Died \<Rightarrow> True | _ \<Rightarrow> False)"

text \<open>The program points inside the \<^verbatim>\<open>try\<close> block.\<close>

definition try_pc :: "pc \<Rightarrow> bool" where
  "try_pc p = (p \<in> {AtOuterStop, AtOuterNow, AtMove, AtInnerStop, AtInnerNow, AtSleep,
                     AtPostStop, AtPostNow})"

definition handler_pc :: "pc \<Rightarrow> bool" where
  "handler_pc p = (p = AtSigClearPid \<or> p = AtSigClearStop)"

text \<open>
  A signal. With the handlers installed, \<^verbatim>\<open>cleanup\<close> runs; its \<^verbatim>\<open>sys.exit(0)\<close> then
  unwinds the interrupted code, through the \<^verbatim>\<open>finally\<close> block when that code was inside
  the \<^verbatim>\<open>try\<close>. Without them the process ends where it stands.
\<close>

definition deliver_signal :: "wstate \<Rightarrow> wstate" where
  "deliver_signal s =
     (if handlers s
      then (emit Signal s)
             \<lparr>in_try := (if handler_pc (pc s) then in_try s else try_pc (pc s)),
              pc := AtSigClearPid\<rparr>
      else (emit Signal s)\<lparr>pc := Died\<rparr>)"

definition absorb_stop_request :: "wenv \<Rightarrow> wstate \<Rightarrow> wstate" where
  "absorb_stop_request env s = (if stop_request env (tick s) then s\<lparr>stop_file := True\<rparr> else s)"

definition run_step :: "JigglerConfig \<Rightarrow> wenv \<Rightarrow> wstate \<Rightarrow> wstate" where
  "run_step cfg env s =
     (if final (pc s) then s
      else (let s1 = absorb_stop_request env s;
                s2 = (if signal_at env (tick s) then deliver_signal s1 else exec cfg env s1)
            in s2\<lparr>tick := Suc (tick s)\<rparr>))"

fun run_steps :: "nat \<Rightarrow> JigglerConfig \<Rightarrow> wenv \<Rightarrow> wstate \<Rightarrow> wstate" where
  "run_steps 0 cfg env s = s"
| "run_steps (Suc n) cfg env s = run_steps n cfg env (run_step cfg env s)"

definition worker_init :: "int option \<Rightarrow> bool \<Rightarrow> wstate" where
  "worker_init pidf stopf =
     \<lparr>pid_file = pidf, stop_file = stopf, trace = [],
      pc = AtWritePid, handlers = False, in_try = False, inhibitor = False,
      deadline = None, step = 0, remaining = Fin 0, tick = 0\<rparr>"

text \<open>
  \<^verbatim>\<open>run(cfg)\<close> with fuel: the state in which the process ended, or \<open>None\<close> when it is
  still running after \<open>fuel\<close> steps.
\<close>

definition run :: "nat \<Rightarrow> JigglerConfig \<Rightarrow> wenv \<Rightarrow> int option \<Rightarrow> bool \<Rightarrow> wstate option" where
  "run fuel cfg env pidf stopf =
     (let s = run_steps fuel cfg env (worker_init pidf stopf)
      in if final (pc s) then Some s else None)"

subsection \<open>Invariants of the worker\<close>

text \<open>
  What holds of every state the worker reaches. \<open>cleanup_inv\<close>: an exit is an exit with
  code 0 whose last two port calls were \<^verbatim>\<open>clear_pid\<close> and \<^verbatim>\<open>clear_stop\<close>, and the
  process dies without cleanup only while the handlers are not installed.
\<close>

definition cleanup_inv :: "wstate \<Rightarrow> bool" where
  "cleanup_inv s =
     ((case pc s of
         Exited c \<Rightarrow> c = 0 \<and> pid_file s = None \<and> \<not> stop_file s
                     \<and> (\<exists>older. trace s = ClearStop # ClearPid # older)
       | Died \<Rightarrow> \<not> handlers s
       | AtFinClearStop \<Rightarrow> pid_file s = None \<and> (\<exists>older. trace s = ClearPid # older)
       | AtSigClearStop \<Rightarrow> pid_file s = None \<and> (\<exists>older. trace s = ClearPid # older)
       | _ \<Rightarrow> True))"



text \<open>
  \<open>quanta_ok dl l\<close>: every \<^verbatim>\<open>clock.sleep(q)\<close> of the trace has \<open>0 < q \<le> 0.2\<close> and comes
  right after a \<^verbatim>\<open>has_stop()\<close> that returned false and a clock reading at which the
  deadline \<open>dl\<close> was not reached.
\<close>

fun quanta_ok :: "pyfloat option \<Rightarrow> event list \<Rightarrow> bool" where
  "quanta_ok dl [] = True"
| "quanta_ok dl (Sleep q # older) =
     (flt (Fin 0) q \<and> fle q sleep_quantum
      \<and> (case older of
            Now t # HasStop b # r \<Rightarrow> \<not> b \<and> \<not> deadline_reached dl t
          | _ \<Rightarrow> False)
      \<and> quanta_ok dl older)"
| "quanta_ok dl (e # older) = quanta_ok dl older"

definition quanta_inv :: "wstate \<Rightarrow> bool" where
  "quanta_inv s =
     ((pc s \<in> {AtInnerStop, AtInnerNow, AtSleep} \<longrightarrow> fgt (remaining s) (Fin 0))
      \<and> (pc s = AtInnerNow \<longrightarrow> (\<exists>older. trace s = HasStop False # older))
      \<and> (pc s = AtSleep \<longrightarrow>
           (\<exists>t older. trace s = Now t # HasStop False # older
                       \<and> \<not> deadline_reached (deadline s) t))
      \<and> (pc s \<in> {AtWritePid, AtClearStop, AtInstall, AtDeadline} \<longrightarrow> sleeps (trace s) = 0)
      \<and> quanta_ok (deadline s) (trace s))"

text \<open>
  The deadline has passed for good: the worker has a deadline, and the clock reads at
  least that at every later step.
\<close>

definition deadline_gone :: "wenv \<Rightarrow> wstate \<Rightarrow> bool" where
  "deadline_gone env s =
     (case deadline s of
        None \<Rightarrow> False
      | Some d \<Rightarrow> float_truthy d \<and> (\<forall>t\<ge>tick s. fge (clock_now env t) d))"

text \<open>The waiting phase between two movements: lines 163 to 177.\<close>

definition waiting :: "pc \<Rightarrow> bool" where
  "waiting p = (p \<in> {AtInnerStop, AtInnerNow, AtSleep, AtPostStop, AtPostNow})"

text \<open>
  States from which the worker only winds down: \<open>quiet0\<close> when it will not sleep again,
  \<open>quiet1\<close> when it may still sleep one quantum. \<open>rank\<close> bounds the steps left.
\<close>

definition exit_pc :: "pc \<Rightarrow> bool" where
  "exit_pc p = (p \<in> {AtRelease, AtFinClearPid, AtFinClearStop, AtSigClearPid, AtSigClearStop}
                \<or> final p)"

definition quiet0 :: "wenv \<Rightarrow> wstate \<Rightarrow> bool" where
  "quiet0 env s =
     (exit_pc (pc s)
      \<or> (stop_file s \<and> pc s \<in> {AtOuterStop, AtInnerStop, AtPostStop, AtPostNow})
      \<or> (deadline_gone env s
          \<and> pc s \<in> {AtOuterStop, AtOuterNow, AtInnerStop, AtInnerNow, AtPostStop, AtPostNow}))"

definition quiet1 :: "wenv \<Rightarrow> wstate \<Rightarrow> bool" where
  "quiet1 env s =
     (quiet0 env s
      \<or> (stop_file s \<and> pc s \<in> {AtInnerNow, AtSleep})
      \<or> (deadline_gone env s \<and> pc s = AtSleep))"

definition rank :: "wstate \<Rightarrow> nat" where
  "rank s =
     (case pc s of
        AtFinClearStop \<Rightarrow> 1
      | AtFinClearPid \<Rightarrow> 2
      | AtRelease \<Rightarrow> 3
      | AtSigClearStop \<Rightarrow> 4
      | AtSigClearPid \<Rightarrow> 5
      | AtOuterNow \<Rightarrow> 4
      | AtOuterStop \<Rightarrow> (if stop_file s then 4 else 5)
      | AtPostNow \<Rightarrow> (if stop_file s then 5 else 4)
      | AtPostStop \<Rightarrow> (if stop_file s then 4 else 5)
      | AtInnerStop \<Rightarrow> (if stop_file s then 5 else 7)
      | AtSleep \<Rightarrow> (if stop_file s then 6 else 8)
      | AtInnerNow \<Rightarrow> (if stop_file s then 7 else 6)
      | _ \<Rightarrow> 0)"

subsection \<open>Concrete inputs\<close>

text \<open>Configurations, environments and repository states on which the theorems are run.\<close>

definition cfg_half_second :: JigglerConfig where
  "cfg_half_second =
     \<lparr>interval = Interval (Fin (1 / 2)), amplitude = Amplitude 1,
      duration = Duration None, pattern = SquarePattern\<rparr>"

definition cfg_twenty_seconds :: JigglerConfig where
  "cfg_twenty_seconds =
     \<lparr>interval = Interval (Fin (1 / 2)), amplitude = Amplitude 1,
      duration = Duration (Some (Fin 20)), pattern = SquarePattern\<rparr>"

text \<open>A clock that advances by one second at every step; nothing else happens.\<close>

definition wenv_calm :: wenv where
  "wenv_calm =
     \<lparr>getpid = 4242, os_nt = False, inhibit_fails = False,
      stop_request = (\<lambda>t. False), clock_now = (\<lambda>t. Fin (of_nat t)),
      move_raises = (\<lambda>t. False), signal_at = (\<lambda>t. False)\<rparr>"

text \<open>Another process creates the stop marker at step 14.\<close>

definition wenv_stop_at_14 :: wenv where
  "wenv_stop_at_14 = wenv_calm\<lparr>stop_request := (\<lambda>t. t = 14)\<rparr>"

text \<open>A signal arrives at step 1: after line 111, before the handlers of line 120.\<close>

definition wenv_signal_at_1 :: wenv where
  "wenv_signal_at_1 = wenv_calm\<lparr>signal_at := (\<lambda>t. t = 1)\<rparr>"

text \<open>A foreground environment in which no process is alive and nothing else writes.\<close>

definition fenv_nobody :: fenv where
  "fenv_nobody =
     \<lparr>is_alive = (\<lambda>k p. False), pid_during_sleep = (\<lambda>k p. p),
      stop_during_sleep = (\<lambda>k b. b), spawn_error = None,
      sys_executable = ''python'', sys_frozen = False,
      str_float = (\<lambda>x. ''0.5''), str_int = (\<lambda>i. ''1''), state_dir = ''state''\<rparr>"

text \<open>The same, with every process alive.\<close>

definition fenv_everybody :: fenv where
  "fenv_everybody = fenv_nobody\<lparr>is_alive := (\<lambda>k p. True)\<rparr>"

text \<open>A repository that records PID 42 and holds a stop marker.\<close>

definition repo_42 :: fstate where
  "repo_42 = \<lparr>pid_file = Some 42, stop_file = True, trace = [], slept = 0\<rparr>"

text \<open>
  Another process creates the stop marker at step 12, while the worker is in its inner
  loop; \<open>asleep_with_stop\<close> is the worker one step later, about to sleep a quantum.
\<close>

definition wenv_stop_at_12 :: wenv where
  "wenv_stop_at_12 = wenv_calm\<lparr>stop_request := (\<lambda>t. t = 12)\<rparr>"

definition asleep_with_stop :: wstate where
  "asleep_with_stop = run_steps 13 cfg_half_second wenv_stop_at_12 (worker_init None True)"

text \<open>
  A session of twenty seconds on the calm clock: the deadline is 23, and after 23 steps
  the worker stands in its inner loop with the deadline passed.
\<close>

definition waiting_past_deadline :: wstate where
  "waiting_past_deadline = run_steps 23 cfg_twenty_seconds wenv_calm (worker_init None True)"

section \<open>Proofs\<close>

subsection \<open>Steps of the worker\<close>

lemmas port_defs =
  emit_def write_pid_def clear_pid_def clear_stop_def set_stop_def has_stop_def

lemmas step_defs =
  run_step_def exec_def final_def deliver_signal_def absorb_stop_request_def
  inner_loop_def Let_def

lemma run_steps_invariant:
  assumes "P s" and "\<And>s. P s \<Longrightarrow> P (run_step cfg env s)"
  shows "P (run_steps n cfg env s)"
  using assms(1)
proof (induction n arbitrary: s)
  case 0
  then show ?case by simp
next
  case (Suc n)
  from Suc.prems have "P (run_step cfg env s)" by (rule assms(2))
  then show ?case by (simp add: Suc.IH)
qed

lemma run_steps_add: "run_steps (m + n) cfg env s = run_steps n cfg env (run_steps m cfg env s)"
  by (induction m arbitrary: s) simp_all

lemma run_step_final: "final (pc s) \<Longrightarrow> run_step cfg env s = s"
  by (simp add: run_step_def)

lemma run_steps_final: "final (pc s) \<Longrightarrow> run_steps n cfg env s = s"
  by (induction n) (simp_all add: run_step_final)

lemma run_step_tick: "\<not> final (pc s) \<Longrightarrow> tick (run_step cfg env s) = Suc (tick s)"
  by (simp add: run_step_def Let_def)

lemma run_step_deadline: "pc s \<noteq> AtDeadline \<Longrightarrow> deadline (run_step cfg env s) = deadline s"
  by (cases "pc s")
     (auto simp: step_defs port_defs split: option.splits sum.splits)

subsection \<open>Cleanup on every exit\<close>

lemma cleanup_inv_init: "cleanup_inv (worker_init pidf stopf)"
  by (simp add: cleanup_inv_def worker_init_def)

lemma cleanup_inv_step: "cleanup_inv s \<Longrightarrow> cleanup_inv (run_step cfg env s)"
  by (cases "pc s")
     (auto simp: cleanup_inv_def step_defs port_defs
        split: option.splits sum.splits if_splits pc.splits)

lemma cleanup_inv_reach: "cleanup_inv (run_steps n cfg env (worker_init pidf stopf))"
  by (rule run_steps_invariant [OF cleanup_inv_init cleanup_inv_step])

subsection \<open>Registration before movement\<close>


lemma moves_Cons: "moves (e # l) = (if is_move e then Suc (moves l) else moves l)"
  by (simp add: moves_def)

lemma sleeps_Cons: "sleeps (e # l) = (if is_sleep e then Suc (sleeps l) else sleeps l)"
  by (simp add: sleeps_def)





subsection \<open>Square pattern\<close>

lemma square_pos_step:
  assumes "1 \<le> A"
  shows "add_delta (square_pos k A) (SquarePattern_next_delta k A) = square_pos (k + 1) A"
proof -
  have m: "k mod 4 = 0 \<or> k mod 4 = 1 \<or> k mod 4 = 2 \<or> k mod 4 = 3" by presburger
  have s1: "(k + 1) mod 4 = (k mod 4 + 1) mod 4" by presburger
  from m show ?thesis
    unfolding SquarePattern_next_delta_def add_delta_def square_pos_def Let_def s1
    using assms by (elim disjE) simp_all
qed

lemma square_pos_bounds:
  assumes "1 \<le> A"
  shows "0 \<le> fst (square_pos k A) \<and> fst (square_pos k A) \<le> A
       \<and> 0 \<le> snd (square_pos k A) \<and> snd (square_pos k A) \<le> A"
  using assms by (simp add: square_pos_def)

lemma drift_telescope:
  assumes "1 \<le> A"
  shows "add_delta (square_pos s A) (drift n s A) = square_pos (s + int n) A"
proof (induction n)
  case 0
  show ?case by (simp add: add_delta_def)
next
  case (Suc n)
  have "add_delta (square_pos s A) (drift (Suc n) s A)
        = add_delta (add_delta (square_pos s A) (drift n s A))
            (SquarePattern_next_delta (s + int n) A)"
    by (simp add: add_delta_def)
  also have "\<dots> = add_delta (square_pos (s + int n) A) (SquarePattern_next_delta (s + int n) A)"
    by (simp only: Suc.IH)
  also have "\<dots> = square_pos (s + int n + 1) A"
    by (rule square_pos_step [OF assms])
  finally have "add_delta (square_pos s A) (drift (Suc n) s A) = square_pos (s + int n + 1) A" .
  moreover have "s + int n + 1 = s + int (Suc n)" by simp
  ultimately show ?case by (simp only:)
qed

lemma drift_bounded:
  assumes "1 \<le> A"
  shows "\<bar>fst (drift n s A)\<bar> \<le> A \<and> \<bar>snd (drift n s A)\<bar> \<le> A"
proof -
  have t: "add_delta (square_pos s A) (drift n s A) = square_pos (s + int n) A"
    by (rule drift_telescope [OF assms])
  have b1: "0 \<le> fst (square_pos s A) \<and> fst (square_pos s A) \<le> A
       \<and> 0 \<le> snd (square_pos s A) \<and> snd (square_pos s A) \<le> A"
    by (rule square_pos_bounds [OF assms])
  have b2: "0 \<le> fst (square_pos (s + int n) A) \<and> fst (square_pos (s + int n) A) \<le> A
       \<and> 0 \<le> snd (square_pos (s + int n) A) \<and> snd (square_pos (s + int n) A) \<le> A"
    by (rule square_pos_bounds [OF assms])
  have f: "fst (square_pos s A) + fst (drift n s A) = fst (square_pos (s + int n) A)"
    using t by (simp add: add_delta_def prod_eq_iff)
  have g: "snd (square_pos s A) + snd (drift n s A) = snd (square_pos (s + int n) A)"
    using t by (simp add: add_delta_def prod_eq_iff)
  from b1 b2 f g show ?thesis by linarith
qed

lemma four_steps_cancel:
  assumes "1 \<le> A"
  shows "add_delta (add_delta (add_delta (SquarePattern_next_delta s A)
            (SquarePattern_next_delta (s + 1) A))
            (SquarePattern_next_delta (s + 2) A))
            (SquarePattern_next_delta (s + 3) A) = (0, 0)"
proof -
  have m: "s mod 4 = 0 \<or> s mod 4 = 1 \<or> s mod 4 = 2 \<or> s mod 4 = 3" by presburger
  have s1: "(s + 1) mod 4 = (s mod 4 + 1) mod 4" by presburger
  have s2: "(s + 2) mod 4 = (s mod 4 + 2) mod 4" by presburger
  have s3: "(s + 3) mod 4 = (s mod 4 + 3) mod 4" by presburger
  from m show ?thesis
    unfolding SquarePattern_next_delta_def add_delta_def Let_def s1 s2 s3
    using assms by (elim disjE) simp_all
qed

text \<open>
  Claim C6. For every amplitude \<open>A \<ge> 1\<close> and every starting step \<open>s \<ge> 0\<close>, the deltas of
  \<^verbatim>\<open>SquarePattern.next_delta\<close> at the four steps \<open>s, s + 1, s + 2, s + 3\<close> add up to
  \<open>(0, 0)\<close>, and the displacement after any number of consecutive steps from \<open>s\<close> stays
  within \<open>A\<close> on each axis.
\<close>

theorem square_four_steps_return:
  assumes "1 \<le> A" and "0 \<le> s"
  shows "add_delta (add_delta (add_delta (SquarePattern_next_delta s A)
            (SquarePattern_next_delta (s + 1) A))
            (SquarePattern_next_delta (s + 2) A))
            (SquarePattern_next_delta (s + 3) A) = (0, 0)
         \<and> (\<forall>n. \<bar>fst (drift n s A)\<bar> \<le> A \<and> \<bar>snd (drift n s A)\<bar> \<le> A)"
  using four_steps_cancel [OF assms(1)] drift_bounded [OF assms(1)] by blast

theorem square_four_steps_return_witness:
  "(1::int) \<le> 3 \<and> (0::int) \<le> 5
   \<and> add_delta (add_delta (add_delta (SquarePattern_next_delta 5 3)
        (SquarePattern_next_delta (5 + 1) 3))
        (SquarePattern_next_delta (5 + 2) 3))
        (SquarePattern_next_delta (5 + 3) 3) = (0, 0)
   \<and> (\<forall>n. \<bar>fst (drift n 5 3)\<bar> \<le> 3 \<and> \<bar>snd (drift n 5 3)\<bar> \<le> 3)"
proof -
  have a: "(1::int) \<le> 3" by simp
  have b: "(0::int) \<le> 5" by simp
  from square_four_steps_return [OF a b] a b show ?thesis by blast
qed

subsection \<open>Random pattern\<close>

lemma dirs_getitem:
  assumes "0 \<le> k" and "k < 8"
  shows "\<exists>cx cy. py_getitem dirs k = Inr (cx, cy) \<and> \<bar>cx\<bar> \<le> 1 \<and> \<bar>cy\<bar> \<le> 1
           \<and> (cx \<noteq> 0 \<or> cy \<noteq> 0)"
proof -
  from assms have "k = 0 \<or> k = 1 \<or> k = 2 \<or> k = 3 \<or> k = 4 \<or> k = 5 \<or> k = 6 \<or> k = 7"
    by arith
  then show ?thesis
    by (elim disjE) (simp_all add: py_getitem_def dirs_def)
qed

lemma scaled_bound:
  fixes c m a :: int
  assumes "\<bar>c\<bar> \<le> 1" and "1 \<le> m" and "m \<le> a"
  shows "\<bar>c * m\<bar> \<le> a"
proof -
  have "\<bar>c * m\<bar> = \<bar>c\<bar> * m" using assms(2) by (simp add: abs_mult)
  also have "\<dots> \<le> 1 * m" using assms(1,2) by (intro mult_right_mono) simp_all
  finally show ?thesis using assms(3) by simp
qed

text \<open>
  The shape of every result of \<^verbatim>\<open>RandomPattern.next_delta\<close>: a compass direction
  times a magnitude between 1 and the clamped amplitude, possibly negated.
\<close>

lemma random_shape:
  "\<exists>cx cy m. \<bar>cx\<bar> \<le> 1 \<and> \<bar>cy\<bar> \<le> 1 \<and> (cx \<noteq> 0 \<or> cy \<noteq> 0) \<and> 1 \<le> m \<and> m \<le> max 1 a
     \<and> (RandomPattern_next_delta p s a = Inr (cx * m, cy * m)
         \<or> RandomPattern_next_delta p s a = Inr (- (cx * m), - (cy * m)))"
proof -
  define a' where "a' = (if a < 1 then 1 else a)"
  have a'1: "1 \<le> a'" by (simp add: a'_def)
  define m where "m = 1 + s mod a'"
  have m1: "1 \<le> m" using a'1 by (simp add: m_def)
  have "s mod a' < a'" using a'1 by (intro pos_mod_bound) simp
  then have "m \<le> a'" by (simp add: m_def)
  moreover have "a' \<le> max 1 a" by (simp add: a'_def)
  ultimately have m2: "m \<le> max 1 a" by linarith
  define k where "k = ((s * 1103515245 + 12345) AND 0x7FFFFFFF) mod 8"
  have "0 \<le> k" "k < 8" by (simp_all add: k_def)
  from dirs_getitem [OF this] obtain cx cy where
    c: "py_getitem dirs k = Inr (cx, cy)" "\<bar>cx\<bar> \<le> 1" "\<bar>cy\<bar> \<le> 1" "cx \<noteq> 0 \<or> cy \<noteq> 0"
    by blast
  have len: "int (length dirs) = 8" by (simp add: dirs_def)
  have "RandomPattern_next_delta p s a = Inr (cx * m, cy * m)
         \<or> RandomPattern_next_delta p s a = Inr (- (cx * m), - (cy * m))"
    using a'1 c(1)
    unfolding RandomPattern_next_delta_def Let_def py_mod_def a'_def [symmetric] len
      k_def [symmetric]
    by (simp add: m_def)
  with c m1 m2 show ?thesis by blast
qed

lemma random_ignores_max_drift:
  "RandomPattern_next_delta (p\<lparr>max_drift := d\<rparr>) s a = RandomPattern_next_delta p s a"
  by (simp add: RandomPattern_next_delta_def Let_def split: sum.splits)

lemma clamp_max: "(if a < 1 then 1 else a) = max 1 (a::int)"
  by simp

lemma square_clamped: "SquarePattern_next_delta s (max 1 a) = SquarePattern_next_delta s a"
  by (simp add: SquarePattern_next_delta_def)

lemma random_clamped: "RandomPattern_next_delta p s (max 1 a) = RandomPattern_next_delta p s a"
proof -
  have "(if max 1 a < 1 then 1 else max 1 a) = (if a < 1 then 1 else a)" by simp
  then show ?thesis unfolding RandomPattern_next_delta_def by (simp only:)
qed

text \<open>
  Claim C9. For every step \<open>s \<ge> 0\<close> and amplitude \<open>a \<ge> 1\<close>,
  \<^verbatim>\<open>RandomPattern.next_delta(s, a)\<close> returns a pair \<open>(dx, dy)\<close> with \<open>|dx| \<le> a\<close> and
  \<open>|dy| \<le> a\<close>. The method reads nothing but its two arguments and the frozen field
  \<^verbatim>\<open>compensate_prob\<close> (the module \<^verbatim>\<open>random\<close> is imported and never used), so it is the
  function \<open>RandomPattern_next_delta\<close>: equal arguments give equal results whatever was
  called before, and the other field of the object does not matter.
\<close>

theorem random_delta_bounded:
  assumes "0 \<le> s" and "1 \<le> a"
  shows "\<exists>dx dy. RandomPattern_next_delta p s a = Inr (dx, dy)
           \<and> \<bar>dx\<bar> \<le> a \<and> \<bar>dy\<bar> \<le> a
           \<and> RandomPattern_next_delta (p\<lparr>max_drift := d\<rparr>) s a = Inr (dx, dy)"
proof -
  from random_shape [of a p s] obtain cx cy m where
    c: "\<bar>cx\<bar> \<le> 1" "\<bar>cy\<bar> \<le> 1" "1 \<le> m" "m \<le> max 1 a"
    and r: "RandomPattern_next_delta p s a = Inr (cx * m, cy * m)
         \<or> RandomPattern_next_delta p s a = Inr (- (cx * m), - (cy * m))"
    by blast
  from c(4) assms(2) have ma: "m \<le> a" by simp
  have bx: "\<bar>cx * m\<bar> \<le> a" by (rule scaled_bound [OF c(1) c(3) ma])
  have by': "\<bar>cy * m\<bar> \<le> a" by (rule scaled_bound [OF c(2) c(3) ma])
  from r show ?thesis
  proof
    assume e: "RandomPattern_next_delta p s a = Inr (cx * m, cy * m)"
    with bx by' show ?thesis by (simp add: random_ignores_max_drift)
  next
    assume e: "RandomPattern_next_delta p s a = Inr (- (cx * m), - (cy * m))"
    with bx by' show ?thesis by (simp add: random_ignores_max_drift)
  qed
qed

theorem random_delta_bounded_witness:
  "(0::int) \<le> 17 \<and> (1::int) \<le> 3
   \<and> RandomPattern_next_delta RandomPattern_default 17 3 = Inr (3, - 3)
   \<and> (\<exists>dx dy. RandomPattern_next_delta RandomPattern_default 17 3 = Inr (dx, dy)
         \<and> \<bar>dx\<bar> \<le> 3 \<and> \<bar>dy\<bar> \<le> 3
         \<and> RandomPattern_next_delta (RandomPattern_default\<lparr>max_drift := 9\<rparr>) 17 3
             = Inr (dx, dy))"
proof -
  have a: "(0::int) \<le> 17" by simp
  have b: "(1::int) \<le> 3" by simp
  have c: "RandomPattern_next_delta RandomPattern_default 17 3 = Inr (3, - 3)" by code_simp
  from random_delta_bounded [OF a b, of RandomPattern_default 9] a b c show ?thesis by blast
qed

text \<open>
  Claim C10. For every step \<open>s \<ge> 0\<close> and every integer amplitude \<open>a\<close>, both patterns
  return a delta, never an exception; an amplitude below 1 gives what amplitude 1
  gives; and the delta has a coordinate that is not zero.
\<close>

theorem next_delta_total_and_nonzero:
  assumes "0 \<le> s"
  shows "\<exists>dx dy. next_delta pat s a = Inr (dx, dy)
           \<and> next_delta pat s (max 1 a) = Inr (dx, dy)
           \<and> (dx \<noteq> 0 \<or> dy \<noteq> 0)"
proof (cases pat)
  case SquarePattern
  have m: "s mod 4 = 0 \<or> s mod 4 = 1 \<or> s mod 4 = 2 \<or> s mod 4 = 3" by presburger
  have "fst (SquarePattern_next_delta s a) \<noteq> 0 \<or> snd (SquarePattern_next_delta s a) \<noteq> 0"
    using m unfolding SquarePattern_next_delta_def Let_def by (elim disjE) simp_all
  then show ?thesis
    using SquarePattern
    by (cases "SquarePattern_next_delta s a") (simp add: square_clamped)
next
  case (RandomPattern p)
  from random_shape [of a p s] obtain cx cy m where
    c: "cx \<noteq> 0 \<or> cy \<noteq> 0" "1 \<le> m"
    and r: "RandomPattern_next_delta p s a = Inr (cx * m, cy * m)
         \<or> RandomPattern_next_delta p s a = Inr (- (cx * m), - (cy * m))"
    by blast
  from c have m0: "m \<noteq> 0" by simp
  from r show ?thesis
  proof
    assume "RandomPattern_next_delta p s a = Inr (cx * m, cy * m)"
    with c(1) m0 RandomPattern show ?thesis by (simp add: random_clamped)
  next
    assume "RandomPattern_next_delta p s a = Inr (- (cx * m), - (cy * m))"
    with c(1) m0 RandomPattern show ?thesis by (simp add: random_clamped)
  qed
qed

theorem next_delta_total_and_nonzero_witness:
  "(0::int) \<le> 17
   \<and> next_delta (RandomPattern RandomPattern_default) 17 (- 3) = Inr (1, - 1)
   \<and> next_delta (RandomPattern RandomPattern_default) 17 (max 1 (- 3)) = Inr (1, - 1)
   \<and> (\<exists>dx dy. next_delta (RandomPattern RandomPattern_default) 17 (- 3) = Inr (dx, dy)
         \<and> next_delta (RandomPattern RandomPattern_default) 17 (max 1 (- 3)) = Inr (dx, dy))"
proof -
  have a: "(0::int) \<le> 17" by simp
  have c: "next_delta (RandomPattern RandomPattern_default) 17 (- 3) = Inr (1, - 1)"
    by code_simp
  have d: "next_delta (RandomPattern RandomPattern_default) 17 (max 1 (- 3)) = Inr (1, - 1)"
    by code_simp
  from next_delta_total_and_nonzero [OF a, of "RandomPattern RandomPattern_default" "- 3"] a c d
  show ?thesis by blast
qed

subsection \<open>Time specifications\<close>


text \<open>
  What \<^verbatim>\<open>Interval.from_spec\<close> and \<^verbatim>\<open>Duration.from_spec\<close> do guarantee: a value they
  build is positive or NaN; no spec at all gives the infinite duration; and a parsed
  value that is zero or negative is refused.
\<close>

lemma not_fle_zero: "\<not> fle x (Fin 0) \<Longrightarrow> x = NaN \<or> fgt x (Fin 0)"
  by (cases x) (simp_all add: fgt_def)

lemma Interval_from_spec_positive_or_nan:
  "Interval_from_spec spec = Inr iv \<Longrightarrow>
     interval_seconds iv = NaN \<or> fgt (interval_seconds iv) (Fin 0)"
  by (auto simp: Interval_from_spec_def split: sum.splits if_splits dest: not_fle_zero)

lemma Duration_from_spec_positive_or_nan:
  "Duration_from_spec spec = Inr d \<Longrightarrow> duration_seconds d = Some x \<Longrightarrow>
     x = NaN \<or> fgt x (Fin 0)"
  by (auto simp: Duration_from_spec_def Duration_none_def
      split: option.splits sum.splits if_splits dest: not_fle_zero)

lemma Duration_from_spec_None: "Duration_from_spec None = Inr Duration_none"
  by (simp add: Duration_from_spec_def)

lemma from_spec_refuses_nonpositive:
  "parse_time_spec_to_seconds (Some sp) = Inr x \<Longrightarrow> fle x (Fin 0) \<Longrightarrow>
     Interval_from_spec (Some sp) = Inl ValueErrorSpec
     \<and> Duration_from_spec (Some sp) = Inl ValueErrorSpec"
  by (simp add: Interval_from_spec_def Duration_from_spec_def)

text \<open>
  Claim C8 fails on the code at the spec \<^verbatim>\<open>"nan"\<close>: \<^verbatim>\<open>float("nan")\<close> succeeds, the
  test \<^verbatim>\<open>secs <= 0\<close> is false for NaN, and both constructors return an object whose
  \<^verbatim>\<open>seconds\<close> is not greater than zero.
\<close>

theorem from_spec_accepts_nan:
  "Interval_from_spec (Some ''nan'') = Inr (Interval NaN)
   \<and> Duration_from_spec (Some ''nan'') = Inr (Duration (Some NaN))
   \<and> \<not> is_infinite (Duration (Some NaN))
   \<and> \<not> fgt NaN (Fin 0)"
  by code_simp

subsection \<open>The exits of \<^verbatim>\<open>run\<close>\<close>

text \<open>
  Claim C1, as the code has it. When \<^verbatim>\<open>run\<close> ends with its signal handlers installed
  (line 120 was reached), it ends through \<^verbatim>\<open>sys.exit(0)\<close>, the PID record and the stop
  marker are absent, and its last two port calls were \<^verbatim>\<open>clear_pid\<close> and \<^verbatim>\<open>clear_stop\<close>:
  whether the loop saw the stop marker, reached the deadline, or a signal ran
  \<^verbatim>\<open>cleanup\<close>.
\<close>

theorem run_exit_clears_store:
  assumes "run fuel cfg env pidf stopf = Some s" and "handlers s"
  shows "pc s = Exited 0 \<and> pid_file s = None \<and> \<not> stop_file s
         \<and> (\<exists>older. trace s = ClearStop # ClearPid # older)"
proof -
  from assms(1) have s: "s = run_steps fuel cfg env (worker_init pidf stopf)"
    and f: "final (pc s)"
    by (auto simp: run_def Let_def split: if_splits)
  have inv: "cleanup_inv s"
    unfolding s by (rule cleanup_inv_reach)
  from f inv assms(2) show ?thesis
    by (cases "pc s") (auto simp: final_def cleanup_inv_def)
qed

theorem run_exit_clears_store_witness:
  "run 19 cfg_half_second wenv_stop_at_14 None True
     = Some (the (run 19 cfg_half_second wenv_stop_at_14 None True))
   \<and> handlers (the (run 19 cfg_half_second wenv_stop_at_14 None True))
   \<and> pc (the (run 19 cfg_half_second wenv_stop_at_14 None True)) = Exited 0
   \<and> pid_file (the (run 19 cfg_half_second wenv_stop_at_14 None True)) = None
   \<and> \<not> stop_file (the (run 19 cfg_half_second wenv_stop_at_14 None True))"
proof -
  have a: "run 19 cfg_half_second wenv_stop_at_14 None True
            = Some (the (run 19 cfg_half_second wenv_stop_at_14 None True))"
    by code_simp
  have b: "handlers (the (run 19 cfg_half_second wenv_stop_at_14 None True))"
    by code_simp
  from run_exit_clears_store [OF a b] a b show ?thesis by blast
qed

text \<open>
  Claim C1 as stated fails: a signal delivered at step 1, after \<^verbatim>\<open>write_pid\<close> and
  before the handlers are installed, ends the process and leaves the PID record.
\<close>

theorem run_signal_before_handlers_counterexample:
  "map_option pc (run 2 cfg_half_second wenv_signal_at_1 None False) = Some Died
   \<and> map_option pid_file (run 2 cfg_half_second wenv_signal_at_1 None False) = Some (Some 4242)
   \<and> signal_at wenv_signal_at_1 1"
  by code_simp

subsection \<open>Registration before the first movement\<close>



text \<open>
  The other two ways out, on concrete runs: the deadline of a twenty-second session is
  reached, and a signal arrives at step 9, inside the loop.
\<close>

lemma run_exits_on_deadline_example:
  "map_option pc (run 29 cfg_twenty_seconds wenv_calm None True) = Some (Exited 0)
   \<and> map_option pid_file (run 29 cfg_twenty_seconds wenv_calm None True) = Some None
   \<and> map_option stop_file (run 29 cfg_twenty_seconds wenv_calm None True) = Some False
   \<and> run 28 cfg_twenty_seconds wenv_calm None True = None"
  by code_simp

lemma run_exits_on_signal_example:
  "map_option pc (run 15 cfg_half_second (wenv_calm\<lparr>signal_at := (\<lambda>t. t = 9)\<rparr>) None True)
     = Some (Exited 0)
   \<and> map_option pid_file (run 15 cfg_half_second (wenv_calm\<lparr>signal_at := (\<lambda>t. t = 9)\<rparr>) None True)
     = Some None
   \<and> map_option stop_file (run 15 cfg_half_second (wenv_calm\<lparr>signal_at := (\<lambda>t. t = 9)\<rparr>) None True)
     = Some False"
  by code_simp

subsection \<open>The foreground commands\<close>

lemma is_mutation_simps:
  "is_mutation (WritePid p)" "is_mutation ClearPid" "is_mutation SetStop" "is_mutation ClearStop"
  "\<not> is_mutation (ReadPid po)" "\<not> is_mutation (HasStop b)" "\<not> is_mutation (IsAlive p b)"
  "\<not> is_mutation (Now t)" "\<not> is_mutation (Sleep t)" "\<not> is_mutation (Move dx dy b)"
  "\<not> is_mutation (SpawnRun argv)" "\<not> is_mutation (Print m)"
  "\<not> is_mutation InstallHandlers" "\<not> is_mutation Signal" "\<not> is_mutation Inhibit"
  "\<not> is_mutation Release"
  by (simp_all add: is_mutation_def)

lemma mutations_emit:
  "mutations (trace (emit e s)) = (if is_mutation e then e # mutations (trace s) else mutations (trace s))"
  by (simp add: emit_def mutations_def)

lemma emit_frame:
  "pid_file (emit e s) = pid_file s" "stop_file (emit e s) = stop_file s"
  "slept (emit e t) = slept t"
  by (simp_all add: emit_def)

lemma pid_and_alive_frame:
  "pid_file (snd (pid_and_alive env pid s)) = pid_file s
   \<and> stop_file (snd (pid_and_alive env pid s)) = stop_file s
   \<and> slept (snd (pid_and_alive env pid s)) = slept s
   \<and> mutations (trace (snd (pid_and_alive env pid s))) = mutations (trace s)"
  by (simp add: pid_and_alive_def probe_def emit_def mutations_def is_mutation_simps
      split: option.splits)

lemma read_pid_frame:
  "pid_file (read_pid s) = pid_file s \<and> stop_file (read_pid s) = stop_file s
   \<and> slept (read_pid s) = slept s
   \<and> mutations (trace (read_pid s)) = mutations (trace s)"
  by (simp add: read_pid_def emit_def mutations_def is_mutation_simps)

lemma clock_sleep_mutations:
  "mutations (trace (clock_sleep env q s)) = mutations (trace s)"
  by (simp add: clock_sleep_def emit_def mutations_def is_mutation_simps)

lemma start_wait_mutations:
  "mutations (trace (snd (start_wait n env s))) = mutations (trace s)"
proof (induction n arbitrary: s)
  case 0
  show ?case by (simp add: mutations_emit is_mutation_simps)
next
  case (Suc n)
  show ?case
    by (simp add: Let_def split_beta Suc.IH pid_and_alive_frame read_pid_frame
        clock_sleep_mutations mutations_emit is_mutation_simps)
qed

lemma start_wait_pid:
  assumes "\<forall>k x. pid_during_sleep env k x = x"
  shows "pid_file (snd (start_wait n env s)) = pid_file s"
proof (induction n arbitrary: s)
  case 0
  show ?case by (simp add: emit_def)
next
  case (Suc n)
  show ?case
    using assms
    by (simp add: Let_def split_beta Suc.IH pid_and_alive_frame read_pid_frame
        clock_sleep_def emit_def)
qed

lemma spawn_and_wait_mutations:
  "mutations (trace (snd (spawn_and_wait env cfg s))) = mutations (trace s)"
  by (simp add: spawn_and_wait_def Let_def start_wait_mutations mutations_emit is_mutation_simps
      split: option.splits)

lemma spawn_and_wait_pid:
  assumes "\<forall>k x. pid_during_sleep env k x = x"
  shows "pid_file (snd (spawn_and_wait env cfg s)) = pid_file s"
  by (simp add: spawn_and_wait_def Let_def start_wait_pid [OF assms] emit_def
      split: option.splits)

lemma start_no_force_mutations:
  "mutations (trace (snd (start env cfg False s))) = mutations (trace s)"
  by (simp add: start_def Let_def split_beta spawn_and_wait_mutations pid_and_alive_frame
      read_pid_frame mutations_emit is_mutation_simps)

lemma start_no_force_pid:
  assumes "\<forall>k x. pid_during_sleep env k x = x"
  shows "pid_file (snd (start env cfg False s)) = pid_file s"
  by (simp add: start_def Let_def split_beta spawn_and_wait_pid [OF assms] pid_and_alive_frame
      read_pid_frame emit_def)

lemma status_frame:
  "fst (status env s) = Returned
   \<and> pid_file (snd (status env s)) = pid_file s
   \<and> stop_file (snd (status env s)) = stop_file s
   \<and> mutations (trace (snd (status env s))) = mutations (trace s)"
  by (simp add: status_def Let_def split_beta pid_and_alive_frame read_pid_frame
      emit_frame mutations_emit is_mutation_simps)

lemma stop_not_running:
  assumes "\<not> fst (pid_and_alive env (pid_file s) (read_pid s))"
  shows "fst (stop env s) = Returned \<and> pid_file (snd (stop env s)) = None
         \<and> \<not> stop_file (snd (stop env s))
         \<and> (\<exists>older. trace (snd (stop env s)) = Print MsgNotRunning # ClearStop # ClearPid # older)"
  using assms by (simp add: stop_def Let_def split_beta port_defs)

text \<open>
  Claim C2, as the code has it. When the PID record names a process that the probe
  reports dead, \<^verbatim>\<open>stop\<close> removes the PID record and the stop marker and returns.
  \<^verbatim>\<open>status\<close> only reads: the record and the marker stay as they were. \<^verbatim>\<open>start\<close>
  without \<^verbatim>\<open>force\<close> makes no write to the repository either; unless another process
  writes the record while \<^verbatim>\<open>start\<close> waits, the stale record is still there when it
  returns.
\<close>

theorem stale_record_cleared_by_stop_only:
  assumes "pid_file s = Some p" and "\<not> is_alive env (slept s) p"
  shows "fst (stop env s) = Returned
         \<and> pid_file (snd (stop env s)) = None \<and> \<not> stop_file (snd (stop env s))
         \<and> pid_file (snd (status env s)) = Some p
         \<and> stop_file (snd (status env s)) = stop_file s
         \<and> mutations (trace (snd (status env s))) = mutations (trace s)
         \<and> mutations (trace (snd (start env cfg False s))) = mutations (trace s)
         \<and> ((\<forall>k x. pid_during_sleep env k x = x) \<longrightarrow>
              pid_file (snd (start env cfg False s)) = Some p)"
proof -
  have d: "\<not> fst (pid_and_alive env (pid_file s) (read_pid s))"
    using assms by (simp add: pid_and_alive_def read_pid_def emit_def)
  from stop_not_running [OF d] status_frame [of env s] start_no_force_mutations [of env cfg s]
    start_no_force_pid [of env cfg s] assms(1)
  show ?thesis by simp
qed

theorem stale_record_cleared_by_stop_only_witness:
  "pid_file repo_42 = Some 42 \<and> \<not> is_alive fenv_nobody (slept repo_42) 42
   \<and> (\<forall>k x. pid_during_sleep fenv_nobody k x = x)
   \<and> pid_file (snd (stop fenv_nobody repo_42)) = None
   \<and> \<not> stop_file (snd (stop fenv_nobody repo_42))
   \<and> pid_file (snd (status fenv_nobody repo_42)) = Some 42
   \<and> pid_file (snd (start fenv_nobody cfg_half_second False repo_42)) = Some 42"
proof -
  have a: "pid_file repo_42 = Some 42" by (simp add: repo_42_def)
  have b: "\<not> is_alive fenv_nobody (slept repo_42) 42" by (simp add: fenv_nobody_def)
  have c: "\<forall>k x. pid_during_sleep fenv_nobody k x = x" by (simp add: fenv_nobody_def)
  from stale_record_cleared_by_stop_only [OF a b, of cfg_half_second] a b c
  show ?thesis by blast
qed

text \<open>
  Claim C2 as stated fails: with PID 42 recorded and dead, the record is still there
  after \<^verbatim>\<open>status\<close>, and after \<^verbatim>\<open>start\<close> without \<^verbatim>\<open>force\<close>.
\<close>

theorem status_keeps_stale_record_counterexample:
  "pid_file repo_42 = Some 42
   \<and> \<not> is_alive fenv_nobody 0 42
   \<and> pid_file (snd (status fenv_nobody repo_42)) = Some 42
   \<and> pid_file (snd (start fenv_nobody cfg_half_second False repo_42)) = Some 42"
  by code_simp

text \<open>
  Claim C3. When a PID is recorded (the source's test \<^verbatim>\<open>if pid\<close>, which a record
  reading 0 fails like a missing one) and the probe reports it alive, \<^verbatim>\<open>start\<close>
  without \<^verbatim>\<open>force\<close> leaves through \<^verbatim>\<open>sys.exit(1)\<close>; it has read the record, asked
  the probe and printed, and nothing else: the PID record and the stop marker are as
  they were, and no write to the repository is on its trace.
\<close>

theorem start_refused_when_running:
  assumes "pid_file s = Some p" and "pid_truthy (Some p)" and "is_alive env (slept s) p"
  shows "start env cfg False s
           = (SysExit 1,
              s\<lparr>trace := Print (MsgAlreadyRunning p) # IsAlive p True # ReadPid (Some p) # trace s\<rparr>)
         \<and> pid_file (snd (start env cfg False s)) = pid_file s
         \<and> stop_file (snd (start env cfg False s)) = stop_file s
         \<and> mutations (trace (snd (start env cfg False s))) = mutations (trace s)"
  using assms
  by (simp add: start_def Let_def pid_and_alive_def read_pid_def probe_def emit_def
      pid_truthy_def mutations_def is_mutation_simps)

theorem start_refused_when_running_witness:
  "pid_file repo_42 = Some 42 \<and> pid_truthy (Some 42) \<and> is_alive fenv_everybody (slept repo_42) 42
   \<and> fst (start fenv_everybody cfg_half_second False repo_42) = SysExit 1
   \<and> pid_file (snd (start fenv_everybody cfg_half_second False repo_42)) = Some 42
   \<and> stop_file (snd (start fenv_everybody cfg_half_second False repo_42))"
proof -
  have a: "pid_file repo_42 = Some 42" by (simp add: repo_42_def)
  have b: "pid_truthy (Some 42)" by (simp add: pid_truthy_def)
  have c: "is_alive fenv_everybody (slept repo_42) 42"
    by (simp add: fenv_everybody_def fenv_nobody_def)
  have d: "stop_file repo_42" by (simp add: repo_42_def)
  from start_refused_when_running [OF a b c, of cfg_half_second] a b c d
  show ?thesis by simp
qed

subsection \<open>Sleeping in quanta\<close>

lemma is_sleep_simps:
  "is_sleep (Sleep q)"
  "\<not> is_sleep (WritePid p)" "\<not> is_sleep ClearPid" "\<not> is_sleep SetStop" "\<not> is_sleep ClearStop"
  "\<not> is_sleep (ReadPid po)" "\<not> is_sleep (HasStop b)" "\<not> is_sleep (IsAlive p b)"
  "\<not> is_sleep (Now t)" "\<not> is_sleep (Move dx dy b)"
  "\<not> is_sleep (SpawnRun argv)" "\<not> is_sleep (Print m)"
  "\<not> is_sleep InstallHandlers" "\<not> is_sleep Signal" "\<not> is_sleep Inhibit"
  "\<not> is_sleep Release"
  by (simp_all add: is_sleep_def)

lemma is_move_simps:
  "is_move (Move dx dy b)"
  "\<not> is_move (WritePid p)" "\<not> is_move ClearPid" "\<not> is_move SetStop" "\<not> is_move ClearStop"
  "\<not> is_move (ReadPid po)" "\<not> is_move (HasStop b)" "\<not> is_move (IsAlive p b)"
  "\<not> is_move (Now t)" "\<not> is_move (Sleep q)"
  "\<not> is_move (SpawnRun argv)" "\<not> is_move (Print m)"
  "\<not> is_move InstallHandlers" "\<not> is_move Signal" "\<not> is_move Inhibit"
  "\<not> is_move Release"
  by (simp_all add: is_move_def)

lemma quanta_ok_other: "\<not> is_sleep e \<Longrightarrow> quanta_ok dl (e # l) = quanta_ok dl l"
  by (cases e) (simp_all add: is_sleep_def)

lemma quanta_ok_no_sleep: "sleeps l = 0 \<Longrightarrow> quanta_ok dl l"
proof (induction l)
  case Nil
  show ?case by simp
next
  case (Cons e l)
  from Cons.prems have n: "\<not> is_sleep e" and z: "sleeps l = 0"
    by (simp_all add: sleeps_Cons split: if_splits)
  from Cons.IH [OF z] n show ?case by (simp add: quanta_ok_other)
qed

lemma quantum_facts:
  "flt (Fin 0) sleep_quantum"
  "fle sleep_quantum sleep_quantum"
  "fgt r (Fin 0) \<Longrightarrow> flt (Fin 0) r"
  "fgt r (Fin 0) \<Longrightarrow> \<not> fgt r sleep_quantum \<Longrightarrow> fle r sleep_quantum"
  by (cases r; simp add: fgt_def sleep_quantum_def)+

lemma quanta_inv_init: "quanta_inv (worker_init pidf stopf)"
  by (simp add: quanta_inv_def worker_init_def sleeps_def)

lemma quanta_inv_step: "quanta_inv s \<Longrightarrow> quanta_inv (run_step cfg env s)"
  by (cases "pc s")
     (auto simp: quanta_inv_def step_defs port_defs sleeps_Cons is_sleep_simps quanta_ok_other
        quanta_ok_no_sleep quantum_facts
        split: option.splits sum.splits if_splits)


lemma deadline_gone_now:
  "deadline_gone env s \<Longrightarrow> deadline_reached (deadline s) (clock_now env (tick s))"
  by (auto simp: deadline_gone_def deadline_reached_def split: option.splits)

lemma deadline_gone_later:
  "deadline_gone env s \<Longrightarrow> deadline s' = deadline s \<Longrightarrow> tick s \<le> tick s' \<Longrightarrow>
     deadline_gone env s'"
  by (auto simp: deadline_gone_def split: option.splits)

lemmas quiet_defs = quiet0_def quiet1_def exit_pc_def deadline_gone_def deadline_reached_def

lemma quiet0_step:
  "quiet0 env s \<Longrightarrow>
     quiet0 env (run_step cfg env s)
     \<and> moves (trace (run_step cfg env s)) = moves (trace s)
     \<and> sleeps (trace (run_step cfg env s)) = sleeps (trace s)"
  by (cases "pc s")
     (auto simp: quiet_defs step_defs port_defs sleeps_Cons moves_Cons is_sleep_simps is_move_simps
        split: option.splits sum.splits if_splits)


lemma quiet1_step:
  "quiet1 env s \<Longrightarrow>
     quiet1 env (run_step cfg env s)
     \<and> moves (trace (run_step cfg env s)) = moves (trace s)
     \<and> sleeps (trace (run_step cfg env s)) + (if quiet0 env (run_step cfg env s) then 0 else 1)
           \<le> sleeps (trace s) + (if quiet0 env s then 0 else 1)"
  by (cases "pc s")
     (auto simp: quiet_defs step_defs port_defs sleeps_Cons moves_Cons is_sleep_simps is_move_simps
        split: option.splits sum.splits if_splits)

lemma rank_step:
  "quiet1 env s \<Longrightarrow> \<not> signal_at env (tick s) \<Longrightarrow> \<not> final (pc s) \<Longrightarrow>
     rank (run_step cfg env s) < rank s"
  by (cases "pc s")
     (auto simp: quiet_defs step_defs port_defs rank_def
        split: option.splits sum.splits if_splits)

lemma rank_zero: "quiet1 env s \<Longrightarrow> rank s = 0 \<Longrightarrow> final (pc s)"
  by (cases "pc s") (auto simp: quiet_defs rank_def final_def split: if_splits)

lemma not_died_step:
  "pc s \<noteq> Died \<Longrightarrow> \<not> signal_at env (tick s) \<Longrightarrow> pc (run_step cfg env s) \<noteq> Died"
  by (cases "pc s")
     (auto simp: step_defs port_defs split: option.splits sum.splits if_splits)


lemma quiet1_steps:
  "quiet1 env s \<Longrightarrow>
     quiet1 env (run_steps m cfg env s)
     \<and> moves (trace (run_steps m cfg env s)) = moves (trace s)
     \<and> sleeps (trace (run_steps m cfg env s)) + (if quiet0 env (run_steps m cfg env s) then 0 else 1)
           \<le> sleeps (trace s) + (if quiet0 env s then 0 else 1)"
proof (induction m arbitrary: s)
  case 0
  then show ?case by simp
next
  case (Suc m)
  from quiet1_step [OF Suc.prems, of cfg] have
    q: "quiet1 env (run_step cfg env s)"
    and mv: "moves (trace (run_step cfg env s)) = moves (trace s)"
    and sl: "sleeps (trace (run_step cfg env s)) + (if quiet0 env (run_step cfg env s) then 0 else 1)
           \<le> sleeps (trace s) + (if quiet0 env s then 0 else 1)"
    by blast+
  from Suc.IH [OF q] mv sl show ?case by (simp del: One_nat_def)
qed

lemma quiet1_bounded:
  assumes "quiet1 env s"
  shows "moves (trace (run_steps m cfg env s)) = moves (trace s)
         \<and> sleeps (trace (run_steps m cfg env s)) \<le> sleeps (trace s) + 1"
proof -
  from quiet1_steps [OF assms, of m cfg] have
    mv: "moves (trace (run_steps m cfg env s)) = moves (trace s)"
    and sl: "sleeps (trace (run_steps m cfg env s)) + (if quiet0 env (run_steps m cfg env s) then 0 else 1)
           \<le> sleeps (trace s) + (if quiet0 env s then 0 else 1)"
    by blast+
  have "sleeps (trace (run_steps m cfg env s))
          \<le> sleeps (trace (run_steps m cfg env s)) + (if quiet0 env (run_steps m cfg env s) then 0 else 1)"
    by simp
  also note sl
  also have "sleeps (trace s) + (if quiet0 env s then 0 else 1) \<le> sleeps (trace s) + 1"
    by simp
  finally show ?thesis using mv by simp
qed

lemma quiet1_exits:
  "quiet1 env s \<Longrightarrow> rank s \<le> k \<Longrightarrow> (\<forall>i<k. \<not> signal_at env (tick s + i)) \<Longrightarrow>
     final (pc (run_steps k cfg env s))"
proof (induction k arbitrary: s)
  case 0
  then show ?case by (simp add: rank_zero)
next
  case (Suc k)
  show ?case
  proof (cases "final (pc s)")
    case True
    then show ?thesis by (simp add: run_steps_final run_step_final)
  next
    case False
    from Suc.prems(3) have now: "\<not> signal_at env (tick s)" by force
    from quiet1_step [OF Suc.prems(1), of cfg] have q: "quiet1 env (run_step cfg env s)" by blast
    from rank_step [OF Suc.prems(1) now False, of cfg] Suc.prems(2)
    have r: "rank (run_step cfg env s) \<le> k" by simp
    have t: "tick (run_step cfg env s) = Suc (tick s)" by (rule run_step_tick [OF False])
    have n: "\<forall>i<k. \<not> signal_at env (tick (run_step cfg env s) + i)"
    proof (intro allI impI)
      fix i assume "i < k"
      then have "Suc i < Suc k" by simp
      with Suc.prems(3) have "\<not> signal_at env (tick s + Suc i)" by blast
      then show "\<not> signal_at env (tick (run_step cfg env s) + i)" by (simp add: t)
    qed
    from Suc.IH [OF q r n] show ?thesis by simp
  qed
qed

lemma not_died_steps:
  "pc s \<noteq> Died \<Longrightarrow> (\<forall>i<k. \<not> signal_at env (tick s + i)) \<Longrightarrow>
     pc (run_steps k cfg env s) \<noteq> Died"
proof (induction k arbitrary: s)
  case 0
  then show ?case by simp
next
  case (Suc k)
  show ?case
  proof (cases "final (pc s)")
    case True
    with Suc.prems(1) show ?thesis by (simp add: run_steps_final run_step_final)
  next
    case False
    from Suc.prems(2) have now: "\<not> signal_at env (tick s)" by force
    have d: "pc (run_step cfg env s) \<noteq> Died" by (rule not_died_step [OF Suc.prems(1) now])
    have t: "tick (run_step cfg env s) = Suc (tick s)" by (rule run_step_tick [OF False])
    have n: "\<forall>i<k. \<not> signal_at env (tick (run_step cfg env s) + i)"
    proof (intro allI impI)
      fix i assume "i < k"
      then have "Suc i < Suc k" by simp
      with Suc.prems(2) have "\<not> signal_at env (tick s + Suc i)" by blast
      then show "\<not> signal_at env (tick (run_step cfg env s) + i)" by (simp add: t)
    qed
    from Suc.IH [OF d n] show ?thesis by simp
  qed
qed

lemma rank_le_8: "rank s \<le> 8"
  by (cases "pc s") (simp_all add: rank_def)

lemma waiting_quiet1: "waiting (pc s) \<Longrightarrow> stop_file s \<or> deadline_gone env s \<Longrightarrow> quiet1 env s"
  by (auto simp: waiting_def quiet1_def quiet0_def)

lemma sleep_preceded:
  assumes "case ys of Now t # HasStop b # r \<Rightarrow> \<not> b \<and> \<not> deadline_reached dl t | _ \<Rightarrow> False"
  shows "\<exists>t r. ys = Now t # HasStop False # r \<and> \<not> deadline_reached dl t"
proof (cases ys)
  case Nil
  with assms show ?thesis by simp
next
  case (Cons e es)
  note c1 = Cons
  show ?thesis
  proof (cases e)
    case (Now t)
    note n = Now
    show ?thesis
    proof (cases es)
      case Nil
      with assms c1 n show ?thesis by simp
    next
      case (Cons e2 r)
      with assms c1 n show ?thesis by (cases e2) simp_all
    qed
  qed (use assms c1 in simp_all)
qed

lemma quanta_ok_split:
  "quanta_ok dl (xs @ Sleep q # ys) \<Longrightarrow>
     flt (Fin 0) q \<and> fle q sleep_quantum
     \<and> (\<exists>t r. ys = Now t # HasStop False # r \<and> \<not> deadline_reached dl t)"
proof (induction xs)
  case Nil
  then have a: "flt (Fin 0) q" "fle q sleep_quantum"
    and c: "case ys of Now t # HasStop b # r \<Rightarrow> \<not> b \<and> \<not> deadline_reached dl t | _ \<Rightarrow> False"
    by simp_all
  from sleep_preceded [OF c] a show ?case by blast
next
  case (Cons e xs)
  have "quanta_ok dl (xs @ Sleep q # ys)"
  proof (cases "is_sleep e")
    case True
    then obtain q' where "e = Sleep q'" by (cases e) (simp_all add: is_sleep_def)
    with Cons.prems show ?thesis by simp
  next
    case False
    with Cons.prems show ?thesis by (simp add: quanta_ok_other)
  qed
  then show ?case by (rule Cons.IH)
qed

lemma quanta_inv_reach: "quanta_inv (run_steps n cfg env (worker_init pidf stopf))"
  by (rule run_steps_invariant [OF quanta_inv_init quanta_inv_step])

text \<open>
  Claim C5. Let \<open>s\<close> be any state that \<^verbatim>\<open>run\<close> reaches, for any configuration (so
  for any interval) and any environment.

  \<^item> Every \<^verbatim>\<open>clock.sleep(q)\<close> on its trace has \<open>0 < q \<le> 0.2\<close> and comes directly after a
    \<^verbatim>\<open>has_stop()\<close> that returned false and a clock reading at which the deadline was
    not reached: the stop marker and the deadline are checked again before each
    quantum.
  \<^item> If \<open>s\<close> is in the waiting phase and the stop marker exists, or the deadline has
    passed for good, then from \<open>s\<close> on the worker makes no further movement and sleeps
    at most one more quantum, and unless a signal interferes it has left through
    \<^verbatim>\<open>sys.exit(0)\<close> within 8 steps. (For the source's test \<^verbatim>\<open>deadline and \<dots>\<close> a
    deadline that is exactly 0.0 is no deadline; \<open>deadline_gone\<close> says so.)
\<close>

theorem sleep_in_quanta:
  assumes "s = run_steps n cfg env (worker_init pidf stopf)"
  shows "(\<forall>before q after. rev (trace s) = before @ Sleep q # after \<longrightarrow>
            flt (Fin 0) q \<and> fle q sleep_quantum
            \<and> (\<exists>t rest. before = rest @ [HasStop False, Now t]
                   \<and> \<not> deadline_reached (deadline s) t))
         \<and> (waiting (pc s) \<and> (stop_file s \<or> deadline_gone env s) \<longrightarrow>
             (\<forall>m. moves (trace (run_steps m cfg env s)) = moves (trace s)
                  \<and> sleeps (trace (run_steps m cfg env s)) \<le> sleeps (trace s) + 1)
             \<and> ((\<forall>i<8. \<not> signal_at env (tick s + i)) \<longrightarrow>
                  pc (run_steps 8 cfg env s) = Exited 0))"
proof (intro conjI allI impI)
  fix before q after
  assume r: "rev (trace s) = before @ Sleep q # after"
  then have "trace s = rev after @ Sleep q # rev before"
    by (metis rev_append rev.simps(2) rev_rev_ident append_Cons append_Nil append_assoc)
  moreover have "quanta_ok (deadline s) (trace s)"
    using quanta_inv_reach [of n cfg env pidf stopf] by (simp add: quanta_inv_def assms)
  ultimately have "quanta_ok (deadline s) (rev after @ Sleep q # rev before)" by simp
  from quanta_ok_split [OF this] obtain t r' where
    q: "flt (Fin 0) q" "fle q sleep_quantum"
    and b: "rev before = Now t # HasStop False # r'"
    and d: "\<not> deadline_reached (deadline s) t"
    by blast
  from b have "before = rev r' @ [HasStop False, Now t]"
    by (metis rev_rev_ident rev.simps(2) append_Cons append_Nil append_assoc)
  with d have e: "\<exists>t rest. before = rest @ [HasStop False, Now t]
                   \<and> \<not> deadline_reached (deadline s) t" by blast
  from q show "flt (Fin 0) q" by simp
  from q show "fle q sleep_quantum" by simp
  from e show "\<exists>t rest. before = rest @ [HasStop False, Now t]
                   \<and> \<not> deadline_reached (deadline s) t" .
next
  fix m
  assume w: "waiting (pc s) \<and> (stop_file s \<or> deadline_gone env s)"
  then have q1: "quiet1 env s" by (blast intro: waiting_quiet1)
  from quiet1_bounded [OF q1, of m cfg]
  show "moves (trace (run_steps m cfg env s)) = moves (trace s)" by blast
  from quiet1_bounded [OF q1, of m cfg]
  show "sleeps (trace (run_steps m cfg env s)) \<le> sleeps (trace s) + 1" by blast
next
  assume w: "waiting (pc s) \<and> (stop_file s \<or> deadline_gone env s)"
    and ns: "\<forall>i<8. \<not> signal_at env (tick s + i)"
  from w have q1: "quiet1 env s" by (blast intro: waiting_quiet1)
  from w have nd: "pc s \<noteq> Died" by (auto simp: waiting_def)
  have f: "final (pc (run_steps 8 cfg env s))"
    by (rule quiet1_exits [OF q1 rank_le_8 ns])
  have d: "pc (run_steps 8 cfg env s) \<noteq> Died"
    by (rule not_died_steps [OF nd ns])
  have "run_steps 8 cfg env s = run_steps (n + 8) cfg env (worker_init pidf stopf)"
    by (simp add: assms run_steps_add)
  then have c: "cleanup_inv (run_steps 8 cfg env s)"
    by (simp only: cleanup_inv_reach)
  from f d c show "pc (run_steps 8 cfg env s) = Exited 0"
    by (cases "pc (run_steps 8 cfg env s)") (auto simp: final_def cleanup_inv_def)
qed



theorem sleep_in_quanta_witness:
  "asleep_with_stop = run_steps 13 cfg_half_second wenv_stop_at_12 (worker_init None True)
   \<and> pc asleep_with_stop = AtSleep \<and> stop_file asleep_with_stop
   \<and> rev (trace asleep_with_stop)
       = take 8 (rev (trace asleep_with_stop)) @ Sleep (Fin (1 / 5))
         # drop 9 (rev (trace asleep_with_stop))
   \<and> flt (Fin 0) (Fin (1 / 5)) \<and> fle (Fin (1 / 5)) sleep_quantum
   \<and> (\<exists>t rest. take 8 (rev (trace asleep_with_stop)) = rest @ [HasStop False, Now t]
          \<and> \<not> deadline_reached (deadline asleep_with_stop) t)
   \<and> (\<forall>m. moves (trace (run_steps m cfg_half_second wenv_stop_at_12 asleep_with_stop))
             = moves (trace asleep_with_stop)
           \<and> sleeps (trace (run_steps m cfg_half_second wenv_stop_at_12 asleep_with_stop))
             \<le> sleeps (trace asleep_with_stop) + 1)
   \<and> sleeps (trace (run_steps 8 cfg_half_second wenv_stop_at_12 asleep_with_stop))
       = sleeps (trace asleep_with_stop) + 1
   \<and> pc (run_steps 8 cfg_half_second wenv_stop_at_12 asleep_with_stop) = Exited 0
   \<and> waiting_past_deadline = run_steps 23 cfg_twenty_seconds wenv_calm (worker_init None True)
   \<and> pc waiting_past_deadline = AtInnerNow
   \<and> deadline_gone wenv_calm waiting_past_deadline
   \<and> (\<forall>m. moves (trace (run_steps m cfg_twenty_seconds wenv_calm waiting_past_deadline))
             = moves (trace waiting_past_deadline)
           \<and> sleeps (trace (run_steps m cfg_twenty_seconds wenv_calm waiting_past_deadline))
             \<le> sleeps (trace waiting_past_deadline) + 1)
   \<and> pc (run_steps 8 cfg_twenty_seconds wenv_calm waiting_past_deadline) = Exited 0"
proof -
  have r: "asleep_with_stop = run_steps 13 cfg_half_second wenv_stop_at_12 (worker_init None True)"
    by (simp add: asleep_with_stop_def)
  have p: "pc asleep_with_stop = AtSleep" by code_simp
  have st: "stop_file asleep_with_stop" by code_simp
  have sp: "rev (trace asleep_with_stop)
       = take 8 (rev (trace asleep_with_stop)) @ Sleep (Fin (1 / 5))
         # drop 9 (rev (trace asleep_with_stop))"
    by code_simp
  have tk: "tick asleep_with_stop = 13" by code_simp
  have ns: "\<forall>i<8. \<not> signal_at wenv_stop_at_12 (tick asleep_with_stop + i)"
    by (simp add: wenv_stop_at_12_def wenv_calm_def)
  have one: "sleeps (trace (run_steps 8 cfg_half_second wenv_stop_at_12 asleep_with_stop))
       = sleeps (trace asleep_with_stop) + 1"
    by code_simp
  have w: "waiting (pc asleep_with_stop) \<and> (stop_file asleep_with_stop
             \<or> deadline_gone wenv_stop_at_12 asleep_with_stop)"
    using p st by (simp add: waiting_def)
  note T = sleep_in_quanta [OF r]
  from T sp have a: "flt (Fin 0) (Fin (1 / 5)) \<and> fle (Fin (1 / 5)) sleep_quantum
       \<and> (\<exists>t rest. take 8 (rev (trace asleep_with_stop)) = rest @ [HasStop False, Now t]
          \<and> \<not> deadline_reached (deadline asleep_with_stop) t)"
    by blast
  from T w have b: "\<forall>m. moves (trace (run_steps m cfg_half_second wenv_stop_at_12 asleep_with_stop))
             = moves (trace asleep_with_stop)
           \<and> sleeps (trace (run_steps m cfg_half_second wenv_stop_at_12 asleep_with_stop))
             \<le> sleeps (trace asleep_with_stop) + 1"
    by blast
  from T w ns have c: "pc (run_steps 8 cfg_half_second wenv_stop_at_12 asleep_with_stop) = Exited 0"
    by blast
  have r': "waiting_past_deadline
              = run_steps 23 cfg_twenty_seconds wenv_calm (worker_init None True)"
    by (simp add: waiting_past_deadline_def)
  have p': "pc waiting_past_deadline = AtInnerNow" by code_simp
  have dl: "deadline waiting_past_deadline = Some (Fin 23)" by code_simp
  have tk': "tick waiting_past_deadline = 23" by code_simp
  have dg: "deadline_gone wenv_calm waiting_past_deadline"
    by (simp add: deadline_gone_def dl tk' wenv_calm_def float_truthy_def fge_def)
  have ns': "\<forall>i<8. \<not> signal_at wenv_calm (tick waiting_past_deadline + i)"
    by (simp add: wenv_calm_def)
  have w': "waiting (pc waiting_past_deadline) \<and> (stop_file waiting_past_deadline
             \<or> deadline_gone wenv_calm waiting_past_deadline)"
    using p' dg by (simp add: waiting_def)
  note T' = sleep_in_quanta [OF r']
  from T' w' have b': "\<forall>m. moves (trace (run_steps m cfg_twenty_seconds wenv_calm waiting_past_deadline))
             = moves (trace waiting_past_deadline)
           \<and> sleeps (trace (run_steps m cfg_twenty_seconds wenv_calm waiting_past_deadline))
             \<le> sleeps (trace waiting_past_deadline) + 1"
    by blast
  from T' w' ns' have c': "pc (run_steps 8 cfg_twenty_seconds wenv_calm waiting_past_deadline) = Exited 0"
    by blast
  from r p st sp a b one c r' p' dg b' c' show ?thesis by blast
qed

end
